theory Spec2Isabelle
  imports Main "HOL-Library.Sublist"
begin

section \<open>Data model of \<open>stringmeup/taxonomy.py\<close>\<close>

text \<open>
  The dataclass \<open>Node\<close>: every field defaults to \<open>None\<close> in the source, the children to
  an empty list. Taxonomic identifiers are Python integers.
\<close>

record Node =
  name :: "string option"
  genbank_common_name :: "string option"
  rank :: "string option"
  parent :: "int option"
  children :: "int list"

text \<open>The namedtuple \<open>Rank\<close> returned by \<open>get_rank_code\<close>.\<close>

record Rank =
  rank_name :: "string option"
  rank_code :: string
  rank_depth :: int

text \<open>
  The module-level dictionary \<open>translate_rank2code\<close>, with its insertion order (the order
  of \<open>translate_rank2code.values()\<close>).
\<close>

definition translate_rank2code_items :: "(string \<times> string) list" where
  "translate_rank2code_items =
     [(''superkingdom'', ''D''), (''kingdom'', ''K''), (''phylum'', ''P''), (''class'', ''C''),
      (''order'', ''O''), (''family'', ''F''), (''genus'', ''G''), (''species'', ''S'')]"

definition translate_rank2code :: "string \<rightharpoonup> string" where
  "translate_rank2code = map_of translate_rank2code_items"

text \<open>
  Exceptions. The source raises \<open>TaxonomyTreeException\<close> with a message, and lets the
  built-in \<open>KeyError\<close>, \<open>ValueError\<close>, \<open>IndexError\<close> and \<open>TypeError\<close> escape. The key of a
  \<open>KeyError\<close> may be an identifier, a rank string or \<open>None\<close>.
\<close>

datatype pykey = IntKey int | NoneKey | StrKey string

datatype message =
    MoreThanOneScientificName int
  | MoreThanOneGenbankCommonName int
  | LogicalError string
  | NotBuiltYet
  | CanOnlyWorkWithRanks

datatype error =
    KeyError pykey
  | ValueError
  | IndexError
  | TypeError
  | TaxonomyTreeException message

text \<open>
  The object state of \<open>TaxonomyTree\<close>: the main dictionary, the rank index, the leaf set
  and the three memoisation dictionaries.
\<close>

record TaxonomyTree =
  taxonomy :: "int \<rightharpoonup> Node"
  byranks :: "string \<rightharpoonup> int set"
  leaves :: "int set"
  lineages :: "int \<rightharpoonup> int list"
  distances :: "int \<rightharpoonup> (int \<rightharpoonup> int)"
  lca_mappings :: "int \<rightharpoonup> (int \<rightharpoonup> int)"

definition empty_tree :: TaxonomyTree where
  "empty_tree = \<lparr>taxonomy = Map.empty, byranks = Map.empty, leaves = {},
                 lineages = Map.empty, distances = Map.empty, lca_mappings = Map.empty\<rparr>"

section \<open>Construction\<close>

text \<open>
  The two input files are modelled after field splitting: a line of the name source is
  the triple of \<open>int(name_info[0].strip())\<close>, \<open>name_info[1].strip()\<close> and
  \<open>name_info[3].strip()\<close>; a line of the node source is the triple of identifier, parent
  identifier and rank. The value of \<open>taxid2name\<close> at an identifier is the pair of its
  \<open>'scientific_name'\<close> and \<open>'genbank_common_name'\<close> entries.
\<close>

type_synonym name_line = "int \<times> string \<times> string"
type_synonym node_line = "int \<times> int \<times> string"
type_synonym taxid2name = "int \<rightharpoonup> (string option \<times> string option)"

definition wanted_name_types :: "string set" where
  "wanted_name_types = {''scientific name'', ''genbank common name''}"

fun read_name_line :: "taxid2name \<Rightarrow> name_line \<Rightarrow> error + taxid2name" where
  "read_name_line t2n (tax_id, tax_name, name_type) =
     (if name_type \<notin> wanted_name_types then Inr t2n
      else
        let t2n1 = (if tax_id \<notin> dom t2n then t2n(tax_id \<mapsto> (None, None)) else t2n) in
        case t2n1 tax_id of
          None \<Rightarrow> Inl (KeyError (IntKey tax_id))
        | Some (sci, com) \<Rightarrow>
            if name_type = ''scientific name'' then
              (if sci \<noteq> None
               then Inl (TaxonomyTreeException (MoreThanOneScientificName tax_id))
               else Inr (t2n1(tax_id \<mapsto> (Some tax_name, com))))
            else if name_type = ''genbank common name'' then
              (if com \<noteq> None
               then Inl (TaxonomyTreeException (MoreThanOneGenbankCommonName tax_id))
               else Inr (t2n1(tax_id \<mapsto> (sci, Some tax_name))))
            else Inl (TaxonomyTreeException (LogicalError tax_name)))"

fun read_names :: "taxid2name \<Rightarrow> name_line list \<Rightarrow> error + taxid2name" where
  "read_names t2n [] = Inr t2n"
| "read_names t2n (l # ls) =
     (case read_name_line t2n l of Inl e \<Rightarrow> Inl e | Inr t2n' \<Rightarrow> read_names t2n' ls)"

definition add_byrank :: "string \<Rightarrow> int \<Rightarrow> (string \<rightharpoonup> int set) \<Rightarrow> (string \<rightharpoonup> int set)" where
  "add_byrank tax_rank tax_id br =
     (case br tax_rank of
        Some s \<Rightarrow> br(tax_rank \<mapsto> insert tax_id s)
      | None \<Rightarrow> br(tax_rank \<mapsto> {tax_id}))"

fun read_node_line :: "taxid2name \<Rightarrow> TaxonomyTree \<Rightarrow> node_line \<Rightarrow> error + TaxonomyTree" where
  "read_node_line t2n st (tax_id, tax_parent, tax_rank) =
     (case t2n tax_id of
        None \<Rightarrow> Inl (KeyError (IntKey tax_id))
      | Some (tax_scientific_name, tax_common_name) \<Rightarrow>
          let st1 =
            (case taxonomy st tax_id of
               Some nd \<Rightarrow>
                 st\<lparr>taxonomy := (taxonomy st)(tax_id \<mapsto> nd\<lparr>rank := Some tax_rank, parent := Some tax_parent\<rparr>)\<rparr>
             | None \<Rightarrow>
                 st\<lparr>taxonomy := (taxonomy st)(tax_id \<mapsto>
                       \<lparr>name = tax_scientific_name, genbank_common_name = tax_common_name,
                        rank = Some tax_rank, parent = Some tax_parent, children = []\<rparr>),
                    leaves := insert tax_id (leaves st)\<rparr>)
          in
          (case taxonomy st1 tax_parent of
             Some pn \<Rightarrow>
               Inr (st1\<lparr>taxonomy := (taxonomy st1)(tax_parent \<mapsto> pn\<lparr>children := children pn @ [tax_id]\<rparr>),
                        leaves := leaves st1 - {tax_parent},
                        byranks := add_byrank tax_rank tax_id (byranks st1)\<rparr>)
           | None \<Rightarrow>
               (case t2n tax_parent of
                  None \<Rightarrow> Inl (KeyError (IntKey tax_parent))
                | Some (parent_scientific_name, parent_common_name) \<Rightarrow>
                    Inr (st1\<lparr>taxonomy := (taxonomy st1)(tax_parent \<mapsto>
                               \<lparr>name = parent_scientific_name, genbank_common_name = parent_common_name,
                                rank = None, parent = None, children = [tax_id]\<rparr>),
                             byranks := add_byrank tax_rank tax_id (byranks st1)\<rparr>))))"

fun read_nodes :: "taxid2name \<Rightarrow> TaxonomyTree \<Rightarrow> node_line list \<Rightarrow> error + TaxonomyTree" where
  "read_nodes t2n st [] = Inr st"
| "read_nodes t2n st (l # ls) =
     (case read_node_line t2n st l of Inl e \<Rightarrow> Inl e | Inr st' \<Rightarrow> read_nodes t2n st' ls)"

text \<open>
  \<open>construct_tree\<close>: the name source, then the node source, then the adjustment of the
  root: \<open>self.taxonomy[1]\<close> raises \<open>KeyError\<close> when 1 is no key, \<open>list.remove(1)\<close> raises
  \<open>ValueError\<close> when 1 is no child of the root and removes its first occurrence otherwise.
\<close>

definition construct_tree :: "name_line list \<Rightarrow> node_line list \<Rightarrow> error + TaxonomyTree" where
  "construct_tree names nodes =
     (case read_names Map.empty names of
        Inl e \<Rightarrow> Inl e
      | Inr t2n \<Rightarrow>
          (case read_nodes t2n empty_tree nodes of
             Inl e \<Rightarrow> Inl e
           | Inr st \<Rightarrow>
               (case taxonomy st 1 of
                  None \<Rightarrow> Inl (KeyError (IntKey 1))
                | Some root \<Rightarrow>
                    if 1 \<notin> set (children root) then Inl ValueError
                    else Inr (st\<lparr>taxonomy := (taxonomy st)(1 \<mapsto>
                                   root\<lparr>parent := None, children := remove1 1 (children root)\<rparr>)\<rparr>))))"

section \<open>Queries\<close>

text \<open>
  A query reads the node mapping and writes the memoisation dictionaries. Its outcome is
  \<open>None\<close> when the call does not return, and otherwise the returned value or the raised
  exception together with the object as the call leaves it (what was cached before an
  exception stays cached).
\<close>

type_synonym 'a outcome = "((error + 'a) \<times> TaxonomyTree) option"

definition then_do :: "'a outcome \<Rightarrow> ('a \<Rightarrow> TaxonomyTree \<Rightarrow> 'b outcome) \<Rightarrow> 'b outcome" where
  "then_do m f =
     (case m of
        None \<Rightarrow> None
      | Some (Inl e, st) \<Rightarrow> Some (Inl e, st)
      | Some (Inr v, st) \<Rightarrow> f v st)"

definition lift :: "TaxonomyTree \<Rightarrow> error + 'a \<Rightarrow> 'a outcome" where
  "lift st r = Some (r, st)"

subsection \<open>Python containers\<close>

text \<open>\<open>d[k]\<close> on a dictionary keyed by identifiers.\<close>

definition subscript :: "(int \<rightharpoonup> 'v) \<Rightarrow> int \<Rightarrow> error + 'v" where
  "subscript d k = (case d k of None \<Rightarrow> Inl (KeyError (IntKey k)) | Some v \<Rightarrow> Inr v)"

text \<open>\<open>xs.index(x)\<close>: the first position of \<open>x\<close>, or \<open>ValueError\<close>.\<close>

fun index_of :: "'a list \<Rightarrow> 'a \<Rightarrow> error + int" where
  "index_of [] x = Inl ValueError"
| "index_of (y # ys) x =
     (if y = x then Inr 0
      else (case index_of ys x of Inl e \<Rightarrow> Inl e | Inr i \<Rightarrow> Inr (i + 1)))"

text \<open>\<open>xs[i]\<close> on a list: an index below zero counts from the end, \<open>IndexError\<close> out of range.\<close>

definition item :: "'a list \<Rightarrow> int \<Rightarrow> error + 'a" where
  "item xs i =
     (if 0 \<le> i \<and> i < int (length xs) then Inr (xs ! nat i)
      else if i < 0 \<and> - int (length xs) \<le> i then Inr (xs ! nat (int (length xs) + i))
      else Inl IndexError)"

text \<open>The keys of a dictionary filled from a list, in insertion order.\<close>

definition keys_in_order :: "int list \<Rightarrow> int list" where
  "keys_in_order xs = rev (remdups (rev xs))"

subsection \<open>\<open>get_node\<close> and \<open>_get_property\<close>\<close>

fun get_node_loop :: "(int \<rightharpoonup> Node) \<Rightarrow> int list \<Rightarrow> (int \<rightharpoonup> Node) \<Rightarrow> error + (int \<rightharpoonup> Node)" where
  "get_node_loop tax [] node_dict = Inr node_dict"
| "get_node_loop tax (tax_id # rest) node_dict =
     (case tax tax_id of
        None \<Rightarrow> Inl (KeyError (IntKey tax_id))
      | Some node \<Rightarrow> get_node_loop tax rest (node_dict(tax_id \<mapsto> node)))"

definition get_node :: "TaxonomyTree \<Rightarrow> int list \<Rightarrow> error + (int \<rightharpoonup> Node)" where
  "get_node st tax_id_list =
     (if taxonomy st \<noteq> Map.empty then get_node_loop (taxonomy st) tax_id_list Map.empty
      else Inl (TaxonomyTreeException NotBuiltYet))"

text \<open>
  \<open>_get_property(tax_id, property)\<close>; the field is chosen by its selector, so the
  \<open>AttributeError\<close> of the source cannot occur.
\<close>

definition get_property :: "TaxonomyTree \<Rightarrow> int \<Rightarrow> (Node \<Rightarrow> 'a) \<Rightarrow> error + 'a" where
  "get_property st tax_id property =
     (if taxonomy st \<noteq> Map.empty then
        (case taxonomy st tax_id of
           None \<Rightarrow> Inl (KeyError (IntKey tax_id))
         | Some node \<Rightarrow> Inr (property node))
      else Inl (TaxonomyTreeException NotBuiltYet))"

fun get_property_loop ::
  "TaxonomyTree \<Rightarrow> (Node \<Rightarrow> 'a) \<Rightarrow> int list \<Rightarrow> (int \<rightharpoonup> 'a) \<Rightarrow> error + (int \<rightharpoonup> 'a)" where
  "get_property_loop st property [] d = Inr d"
| "get_property_loop st property (tax_id # rest) d =
     (case get_property st tax_id property of
        Inl e \<Rightarrow> Inl e
      | Inr v \<Rightarrow> get_property_loop st property rest (d(tax_id \<mapsto> v)))"

definition get_children :: "TaxonomyTree \<Rightarrow> int list \<Rightarrow> error + (int \<rightharpoonup> int list)" where
  "get_children st tax_id_list = get_property_loop st children tax_id_list Map.empty"

definition get_parent :: "TaxonomyTree \<Rightarrow> int list \<Rightarrow> error + (int \<rightharpoonup> int option)" where
  "get_parent st tax_id_list = get_property_loop st parent tax_id_list Map.empty"

definition get_rank :: "TaxonomyTree \<Rightarrow> int list \<Rightarrow> error + (int \<rightharpoonup> string option)" where
  "get_rank st tax_id_list = get_property_loop st rank tax_id_list Map.empty"

text \<open>The idiom \<open>self.get_x([k])[k]\<close>.\<close>

definition single :: "(int list \<Rightarrow> error + (int \<rightharpoonup> 'v)) \<Rightarrow> int \<Rightarrow> error + 'v" where
  "single get k = (case get [k] of Inl e \<Rightarrow> Inl e | Inr d \<Rightarrow> subscript d k)"

subsection \<open>\<open>get_lineage\<close>\<close>

text \<open>
  The loop \<open>while node.parent\<close>: it stops at a parent that is \<open>None\<close> and also at a parent
  that is 0, which Python takes for false.
\<close>

partial_function (option) lineage_loop :: "TaxonomyTree \<Rightarrow> Node \<Rightarrow> int list \<Rightarrow> (error + int list) option" where
  "lineage_loop st node lineage =
     (case parent node of
        None \<Rightarrow> Some (Inr lineage)
      | Some p \<Rightarrow>
          if p = 0 then Some (Inr lineage)
          else (case single (get_node st) p of
                  Inl e \<Rightarrow> Some (Inl e)
                | Inr node' \<Rightarrow> lineage_loop st node' (lineage @ [p])))"

fun get_lineage_loop :: "TaxonomyTree \<Rightarrow> int list \<Rightarrow> (int \<rightharpoonup> int list) \<Rightarrow> (int \<rightharpoonup> int list) outcome" where
  "get_lineage_loop st [] lineage_dict = Some (Inr lineage_dict, st)"
| "get_lineage_loop st (tax_id # rest) lineage_dict =
     (case lineages st tax_id of
        Some lineage \<Rightarrow> get_lineage_loop st rest (lineage_dict(tax_id \<mapsto> lineage))
      | None \<Rightarrow>
          (case single (get_node st) tax_id of
             Inl e \<Rightarrow> Some (Inl e, st)
           | Inr node \<Rightarrow>
               (case lineage_loop st node [tax_id] of
                  None \<Rightarrow> None
                | Some (Inl e) \<Rightarrow> Some (Inl e, st)
                | Some (Inr lineage) \<Rightarrow>
                    get_lineage_loop (st\<lparr>lineages := (lineages st)(tax_id \<mapsto> rev lineage)\<rparr>) rest
                      (lineage_dict(tax_id \<mapsto> rev lineage)))))"

definition get_lineage :: "TaxonomyTree \<Rightarrow> int list \<Rightarrow> (int \<rightharpoonup> int list) outcome" where
  "get_lineage st tax_id_list = get_lineage_loop st tax_id_list Map.empty"

subsection \<open>\<open>get_lca\<close> and \<open>get_distance\<close>\<close>

text \<open>
  Both dictionaries are keyed by the smaller identifier and then by the larger one. The
  lookup at the head of each function leaves an empty inner dictionary behind when the
  smaller identifier was no key, before anything else is computed.
\<close>

definition cached :: "(int \<rightharpoonup> (int \<rightharpoonup> int)) \<Rightarrow> int \<Rightarrow> int \<Rightarrow> int option" where
  "cached memo tax_id_small tax_id_large =
     (case memo tax_id_small of None \<Rightarrow> None | Some inner \<Rightarrow> inner tax_id_large)"

definition ensure_key :: "(int \<rightharpoonup> (int \<rightharpoonup> int)) \<Rightarrow> int \<Rightarrow> (int \<rightharpoonup> (int \<rightharpoonup> int))" where
  "ensure_key memo tax_id_small =
     (case memo tax_id_small of None \<Rightarrow> memo(tax_id_small \<mapsto> Map.empty) | Some inner \<Rightarrow> memo)"

definition store :: "(int \<rightharpoonup> (int \<rightharpoonup> int)) \<Rightarrow> int \<Rightarrow> int \<Rightarrow> int \<Rightarrow> error + (int \<rightharpoonup> (int \<rightharpoonup> int))" where
  "store memo tax_id_small tax_id_large v =
     (case memo tax_id_small of
        None \<Rightarrow> Inl (KeyError (IntKey tax_id_small))
      | Some inner \<Rightarrow> Inr (memo(tax_id_small \<mapsto> inner(tax_id_large \<mapsto> v))))"

definition get_lca :: "TaxonomyTree \<Rightarrow> int \<Rightarrow> int \<Rightarrow> int outcome" where
  "get_lca st tax_id_1 tax_id_2 =
     (let tax_id_small = min tax_id_1 tax_id_2;
          tax_id_large = max tax_id_1 tax_id_2;
          lca = cached (lca_mappings st) tax_id_small tax_id_large;
          st0 = st\<lparr>lca_mappings := ensure_key (lca_mappings st) tax_id_small\<rparr>
      in case lca of
           Some v \<Rightarrow> Some (Inr v, st0)
         | None \<Rightarrow>
             then_do (get_lineage st0 [tax_id_1, tax_id_2]) (\<lambda>lineage_dict st1.
             then_do (lift st1 (subscript lineage_dict tax_id_1)) (\<lambda>lineage_1 st2.
             then_do (lift st2 (subscript lineage_dict tax_id_2)) (\<lambda>lineage_2 st3.
             then_do (lift st3 (item lineage_1 (int (card (set lineage_1 \<inter> set lineage_2)) - 1))) (\<lambda>v st4.
             then_do (lift st4 (store (lca_mappings st4) tax_id_small tax_id_large v)) (\<lambda>memo st5.
               Some (Inr v, st5\<lparr>lca_mappings := memo\<rparr>)))))))"

definition one_way_distance :: "TaxonomyTree \<Rightarrow> int \<Rightarrow> int \<Rightarrow> int outcome" where
  "one_way_distance st tax_id_ancestor tax_id =
     then_do (get_lineage st [tax_id]) (\<lambda>lineage_dict st1.
     then_do (lift st1 (subscript lineage_dict tax_id)) (\<lambda>lineage st2.
     then_do (lift st2 (index_of lineage tax_id_ancestor)) (\<lambda>ancestor_index st3.
     then_do (lift st3 (index_of lineage tax_id)) (\<lambda>tax_id_index st4.
       Some (Inr (tax_id_index - ancestor_index), st4)))))"

definition get_distance :: "TaxonomyTree \<Rightarrow> int \<Rightarrow> int \<Rightarrow> int outcome" where
  "get_distance st tax_id_1 tax_id_2 =
     (let tax_id_small = min tax_id_1 tax_id_2;
          tax_id_large = max tax_id_1 tax_id_2;
          distance = cached (distances st) tax_id_small tax_id_large;
          st0 = st\<lparr>distances := ensure_key (distances st) tax_id_small\<rparr>
      in case distance of
           Some d \<Rightarrow> Some (Inr d, st0)
         | None \<Rightarrow>
             then_do (get_lca st0 tax_id_1 tax_id_2) (\<lambda>lca st1.
             then_do (one_way_distance st1 lca tax_id_1) (\<lambda>distance_1 st2.
             then_do (one_way_distance st2 lca tax_id_2) (\<lambda>distance_2 st3.
             then_do (lift st3 (store (distances st3) tax_id_small tax_id_large (distance_1 + distance_2))) (\<lambda>memo st4.
               Some (Inr (distance_1 + distance_2), st4\<lparr>distances := memo\<rparr>))))))"

subsection \<open>\<open>get_rank_code\<close>\<close>

text \<open>
  The loop \<open>while not rank_code\<close>. When the parent of the current node is \<open>None\<close>, the
  source goes on to \<open>self.get_rank([None])\<close>, whose lookup of \<open>None\<close> in the node mapping
  raises \<open>KeyError\<close>.
\<close>

partial_function (option) rank_code_loop :: "TaxonomyTree \<Rightarrow> string option \<Rightarrow> int \<Rightarrow> (error + string \<times> int) option" where
  "rank_code_loop st current_rank current_node =
     (case (case current_rank of None \<Rightarrow> None | Some r \<Rightarrow> translate_rank2code r) of
        Some code \<Rightarrow> Some (Inr (code, current_node))
      | None \<Rightarrow>
          if current_node = 1 then Some (Inr (''R'', current_node))
          else (case single (get_parent st) current_node of
                  Inl e \<Rightarrow> Some (Inl e)
                | Inr None \<Rightarrow> Some (Inl (KeyError NoneKey))
                | Inr (Some p) \<Rightarrow>
                    (case single (get_rank st) p of
                       Inl e \<Rightarrow> Some (Inl e)
                     | Inr parent_rank \<Rightarrow> rank_code_loop st parent_rank p)))"

definition rank_code_of :: "TaxonomyTree \<Rightarrow> string option \<Rightarrow> int \<Rightarrow> Rank outcome" where
  "rank_code_of st own tax_id =
     then_do (case rank_code_loop st own tax_id of None \<Rightarrow> None | Some r \<Rightarrow> lift st r) (\<lambda>found st1.
     then_do (get_distance st1 (snd found) tax_id) (\<lambda>depth st2.
     then_do (lift st2 (single (get_rank st2) tax_id)) (\<lambda>own_rank st3.
       Some (Inr \<lparr>rank_name = own_rank, rank_code = fst found, rank_depth = depth\<rparr>, st3))))"

fun get_rank_code_loop ::
  "TaxonomyTree \<Rightarrow> (int \<rightharpoonup> string option) \<Rightarrow> int list \<Rightarrow> (int \<rightharpoonup> Rank) \<Rightarrow> (int \<rightharpoonup> Rank) outcome" where
  "get_rank_code_loop st rank_dict [] rank_code_dict = Some (Inr rank_code_dict, st)"
| "get_rank_code_loop st rank_dict (tax_id # rest) rank_code_dict =
     (case subscript rank_dict tax_id of
        Inl e \<Rightarrow> Some (Inl e, st)
      | Inr own \<Rightarrow>
          (case rank_code_of st own tax_id of
             None \<Rightarrow> None
           | Some (Inl e, st1) \<Rightarrow> Some (Inl e, st1)
           | Some (Inr rank_tuple, st1) \<Rightarrow>
               get_rank_code_loop st1 rank_dict rest (rank_code_dict(tax_id \<mapsto> rank_tuple))))"

definition get_rank_code :: "TaxonomyTree \<Rightarrow> int list \<Rightarrow> (int \<rightharpoonup> Rank) outcome" where
  "get_rank_code st tax_id_list =
     (case get_rank st tax_id_list of
        Inl e \<Rightarrow> Some (Inl e, st)
      | Inr rank_dict \<Rightarrow> get_rank_code_loop st rank_dict (keys_in_order tax_id_list) Map.empty)"

subsection \<open>\<open>get_clade_rank_taxids\<close>\<close>

text \<open>
  \<open>canonical_ranks\<close> are the values of \<open>translate_rank2code\<close> and \<open>canonical_rank_weights\<close>
  numbers \<open>['R'] + list(canonical_ranks)\<close> from 0.
\<close>

definition canonical_ranks :: "string list" where
  "canonical_ranks = map snd translate_rank2code_items"

definition canonical_rank_weights :: "string \<rightharpoonup> nat" where
  "canonical_rank_weights = map_of (map (\<lambda>(weight, r). (r, weight)) (enumerate 0 (''R'' # canonical_ranks)))"

text \<open>
  \<open>set(rank)\<close>: for the code of a requested rank, a Python string, the set of its
  one-character strings; without a requested rank, the set of all canonical codes. The
  model keeps the elements of the set in a list without repetitions, which fixes the
  order in which the source iterates over the set.
\<close>

definition wanted_of :: "string option \<Rightarrow> error + string list" where
  "wanted_of requested =
     (case requested of
        None \<Rightarrow> Inr (remdups canonical_ranks)
      | Some r \<Rightarrow>
          if r = [] then Inr (remdups canonical_ranks)
          else (case translate_rank2code r of
                  None \<Rightarrow> Inl (KeyError (StrKey r))
                | Some code \<Rightarrow> Inr (remdups (map (\<lambda>ch. [ch]) code))))"

text \<open>
  \<open>any([rank_code_weight < canonical_rank_weights[rank] for rank in wanted_ranks])\<close>: the
  list is built first, so a code without a weight raises \<open>KeyError\<close>.
\<close>

fun deeper_wanted :: "nat \<Rightarrow> string list \<Rightarrow> error + bool" where
  "deeper_wanted rank_code_weight [] = Inr False"
| "deeper_wanted rank_code_weight (r # rs) =
     (case canonical_rank_weights r of
        None \<Rightarrow> Inl (KeyError (StrKey r))
      | Some w \<Rightarrow>
          (case deeper_wanted rank_code_weight rs of
             Inl e \<Rightarrow> Inl e
           | Inr b \<Rightarrow> Inr (rank_code_weight < w \<or> b)))"

definition record_taxid :: "Rank \<Rightarrow> string list \<Rightarrow> int \<Rightarrow> (string \<rightharpoonup> int set) \<Rightarrow> error + (string \<rightharpoonup> int set)" where
  "record_taxid taxonomy_rank wanted_ranks tax_id tax_lvl_dict =
     (if rank_depth taxonomy_rank = 0 then
        (if rank_code taxonomy_rank \<in> set wanted_ranks then
           (case tax_lvl_dict (rank_code taxonomy_rank) of
              None \<Rightarrow> Inl (KeyError (StrKey (rank_code taxonomy_rank)))
            | Some s \<Rightarrow> Inr (tax_lvl_dict(rank_code taxonomy_rank \<mapsto> insert tax_id s)))
         else Inr tax_lvl_dict)
      else Inr tax_lvl_dict)"

text \<open>
  The nested function \<open>dfs\<close>. It calls itself for every child; the first argument of the
  model bounds the depth of these calls, and \<open>None\<close> stands for a search that does not fit
  into the bound. The visited set and \<open>tax_lvl_dict\<close> are shared by all calls of one
  search, so they are passed on and returned.
\<close>

fun clade_dfs ::
    "nat \<Rightarrow> string list \<Rightarrow> TaxonomyTree \<Rightarrow> int set \<times> (string \<rightharpoonup> int set) \<Rightarrow> int
       \<Rightarrow> (int set \<times> (string \<rightharpoonup> int set)) outcome"
  and clade_dfs_children ::
    "nat \<Rightarrow> string list \<Rightarrow> TaxonomyTree \<Rightarrow> int set \<times> (string \<rightharpoonup> int set) \<Rightarrow> int list
       \<Rightarrow> (int set \<times> (string \<rightharpoonup> int set)) outcome" where
  "clade_dfs 0 wanted_ranks st acc tax_id = None"
| "clade_dfs (Suc depth) wanted_ranks st (visited_nodes, tax_lvl_dict) tax_id =
     (if tax_id \<in> visited_nodes then Some (Inr (visited_nodes, tax_lvl_dict), st)
      else
        then_do (get_rank_code st [tax_id]) (\<lambda>rank_code_dict st1.
        then_do (lift st1 (subscript rank_code_dict tax_id)) (\<lambda>taxonomy_rank st2.
        then_do (lift st2 (record_taxid taxonomy_rank wanted_ranks tax_id tax_lvl_dict)) (\<lambda>tax_lvl_dict' st3.
        then_do (lift st3 (case canonical_rank_weights (rank_code taxonomy_rank) of
                             None \<Rightarrow> Inl (KeyError (StrKey (rank_code taxonomy_rank)))
                           | Some w \<Rightarrow> Inr w)) (\<lambda>rank_code_weight st4.
        then_do (lift st4 (deeper_wanted rank_code_weight wanted_ranks)) (\<lambda>go_down st5.
          if go_down then
            then_do (lift st5 (single (get_children st5) tax_id)) (\<lambda>childs st6.
              clade_dfs_children depth wanted_ranks st6 (insert tax_id visited_nodes, tax_lvl_dict') childs)
          else Some (Inr (insert tax_id visited_nodes, tax_lvl_dict'), st5)))))))"
| "clade_dfs_children depth wanted_ranks st acc [] = Some (Inr acc, st)"
| "clade_dfs_children depth wanted_ranks st acc (child # rest) =
     then_do (clade_dfs depth wanted_ranks st acc child) (\<lambda>acc' st'.
       clade_dfs_children depth wanted_ranks st' acc' rest)"

fun clade_rank_loop ::
    "nat \<Rightarrow> string list \<Rightarrow> TaxonomyTree \<Rightarrow> int list \<Rightarrow> (int \<rightharpoonup> (string \<rightharpoonup> int set))
       \<Rightarrow> (int \<rightharpoonup> (string \<rightharpoonup> int set)) outcome" where
  "clade_rank_loop depth wanted_ranks st [] clade_tax_rank_dict = Some (Inr clade_tax_rank_dict, st)"
| "clade_rank_loop depth wanted_ranks st (tax_id # rest) clade_tax_rank_dict =
     then_do (clade_dfs depth wanted_ranks st ({}, map_of (map (\<lambda>tax_lvl. (tax_lvl, {})) wanted_ranks)) tax_id)
       (\<lambda>found st'. clade_rank_loop depth wanted_ranks st' rest (clade_tax_rank_dict(tax_id \<mapsto> snd found)))"

definition get_clade_rank_taxids ::
    "nat \<Rightarrow> TaxonomyTree \<Rightarrow> int list \<Rightarrow> string option \<Rightarrow> (int \<rightharpoonup> (string \<rightharpoonup> int set)) outcome" where
  "get_clade_rank_taxids depth st tax_ids requested =
     (case wanted_of requested of
        Inl e \<Rightarrow> Some (Inl e, st)
      | Inr wanted_ranks \<Rightarrow>
          clade_rank_loop depth wanted_ranks st tax_ids (map_of (map (\<lambda>tax_id. (tax_id, Map.empty)) tax_ids)))"

subsection \<open>\<open>get_siblings\<close>\<close>

definition rank_codes :: "string list" where
  "rank_codes = [''S'', ''G'', ''F'', ''O'', ''C'', ''P'']"

text \<open>
  The nested function \<open>get_parent\<close> with its loop \<open>while not parent_rank_ok\<close>. A parent
  that is \<open>None\<close> goes into \<open>self.get_rank_code([None])\<close>, whose first lookup raises
  \<open>KeyError\<close>.
\<close>

partial_function (option) sibling_parent :: "TaxonomyTree \<Rightarrow> int \<Rightarrow> int outcome" where
  "sibling_parent st current_tax_id =
     (case single (get_parent st) current_tax_id of
        Inl e \<Rightarrow> Some (Inl e, st)
      | Inr None \<Rightarrow> Some (Inl (KeyError NoneKey), st)
      | Inr (Some p) \<Rightarrow>
          (case get_rank_code st [p] of
             None \<Rightarrow> None
           | Some (Inl e, st1) \<Rightarrow> Some (Inl e, st1)
           | Some (Inr rank_code_dict, st1) \<Rightarrow>
               (case subscript rank_code_dict p of
                  Inl e \<Rightarrow> Some (Inl e, st1)
                | Inr taxonomy_rank \<Rightarrow>
                    if rank_code taxonomy_rank \<in> set rank_codes \<and> rank_depth taxonomy_rank = 0
                    then Some (Inr p, st1)
                    else if p = 1 then Some (Inr p, st1)
                    else sibling_parent st1 p)))"

text \<open>
  The nested function \<open>dfs\<close> of \<open>get_siblings\<close>, with the depth of its calls bounded as
  above; the visited set and the set of siblings are passed on and returned.
\<close>

fun sibling_dfs ::
    "nat \<Rightarrow> string \<Rightarrow> TaxonomyTree \<Rightarrow> int set \<times> int set \<Rightarrow> int \<Rightarrow> (int set \<times> int set) outcome"
  and sibling_dfs_children ::
    "nat \<Rightarrow> string \<Rightarrow> TaxonomyTree \<Rightarrow> int set \<times> int set \<Rightarrow> int list \<Rightarrow> (int set \<times> int set) outcome" where
  "sibling_dfs 0 wanted_rank st acc tax_id = None"
| "sibling_dfs (Suc depth) wanted_rank st (visited_nodes, siblings) tax_id =
     (if tax_id \<in> visited_nodes then Some (Inr (visited_nodes, siblings), st)
      else
        then_do (get_rank_code st [tax_id]) (\<lambda>rank_code_dict st1.
        then_do (lift st1 (subscript rank_code_dict tax_id)) (\<lambda>taxonomy_rank st2.
          if rank_code taxonomy_rank \<noteq> wanted_rank then
            then_do (lift st2 (single (get_children st2) tax_id)) (\<lambda>childs st3.
              sibling_dfs_children depth wanted_rank st3 (insert tax_id visited_nodes, siblings) childs)
          else Some (Inr (insert tax_id visited_nodes, insert tax_id siblings), st2))))"
| "sibling_dfs_children depth wanted_rank st acc [] = Some (Inr acc, st)"
| "sibling_dfs_children depth wanted_rank st acc (child # rest) =
     then_do (sibling_dfs depth wanted_rank st acc child) (\<lambda>acc' st'.
       sibling_dfs_children depth wanted_rank st' acc' rest)"

definition get_siblings :: "nat \<Rightarrow> TaxonomyTree \<Rightarrow> int \<Rightarrow> int set outcome" where
  "get_siblings depth st tax_id =
     then_do (get_rank_code st [tax_id]) (\<lambda>rank_code_dict st1.
     then_do (lift st1 (subscript rank_code_dict tax_id)) (\<lambda>tax_id_rank st2.
       if rank_depth tax_id_rank \<noteq> 0 then Some (Inl (TaxonomyTreeException CanOnlyWorkWithRanks), st2)
       else
         then_do (sibling_parent st2 tax_id) (\<lambda>p st3.
         then_do (sibling_dfs depth (rank_code tax_id_rank) st3 ({}, {}) p) (\<lambda>found st4.
           Some (Inr (snd found), st4)))))"

section \<open>Vocabulary of the statements about construction\<close>

text \<open>
  \<open>raises P r\<close>: the call ended in an exception that satisfies \<open>P\<close>.
\<close>

definition raises :: "(error \<Rightarrow> bool) \<Rightarrow> error + 'a \<Rightarrow> bool" where
  "raises P r = (case r of Inl e \<Rightarrow> P e | Inr v \<Rightarrow> False)"

text \<open>
  The two exceptions of lines 107 and 113 of the source: more than one scientific name,
  or more than one genbank common name, for one identifier.
\<close>

fun duplicate_name_error :: "error \<Rightarrow> bool" where
  "duplicate_name_error (TaxonomyTreeException (MoreThanOneScientificName i)) = True"
| "duplicate_name_error (TaxonomyTreeException (MoreThanOneGenbankCommonName i)) = True"
| "duplicate_name_error _ = False"

fun is_key_error :: "error \<Rightarrow> bool" where
  "is_key_error (KeyError k) = True"
| "is_key_error _ = False"

text \<open>
  The lines of the name source that the loop does not skip, and for each of them the pair
  of its identifier and its name type. A name source has at most one name of each kind
  per identifier when these pairs are distinct.
\<close>

definition retained :: "name_line list \<Rightarrow> name_line list" where
  "retained names = filter (\<lambda>(tax_id, tax_name, name_type). name_type \<in> wanted_name_types) names"

definition name_keys :: "name_line list \<Rightarrow> (int \<times> string) list" where
  "name_keys names = map (\<lambda>(tax_id, tax_name, name_type). (tax_id, name_type)) (retained names)"

text \<open>The identifier and name-type pairs already recorded in \<open>taxid2name\<close>.\<close>

definition seen :: "taxid2name \<Rightarrow> (int \<times> string) set" where
  "seen t2n = {(i, k). \<exists>sci com. t2n i = Some (sci, com) \<and>
                 ((k = ''scientific name'' \<and> sci \<noteq> None) \<or> (k = ''genbank common name'' \<and> com \<noteq> None))}"

text \<open>
  Views of the node mapping: the children sequence and the parent field of an identifier
  (empty and \<open>None\<close> for an identifier that is no key).
\<close>

definition children_of :: "TaxonomyTree \<Rightarrow> int \<Rightarrow> int list" where
  "children_of st n = (case taxonomy st n of None \<Rightarrow> [] | Some nd \<Rightarrow> children nd)"

definition parent_of :: "TaxonomyTree \<Rightarrow> int \<Rightarrow> int option" where
  "parent_of st n = (case taxonomy st n of None \<Rightarrow> None | Some nd \<Rightarrow> parent nd)"

text \<open>
  The identifiers that have a record line of their own in the node source, the identifiers
  referenced as a parent, the identifiers appended to the children of \<open>n\<close>, and the lines
  that record the root as its own parent.
\<close>

definition record_ids :: "node_line list \<Rightarrow> int set" where
  "record_ids nodes = (\<lambda>(tax_id, tax_parent, tax_rank). tax_id) ` set nodes"

definition parent_ids :: "node_line list \<Rightarrow> int set" where
  "parent_ids nodes = (\<lambda>(tax_id, tax_parent, tax_rank). tax_parent) ` set nodes"

definition children_lines :: "int \<Rightarrow> node_line list \<Rightarrow> int list" where
  "children_lines n nodes =
     map (\<lambda>(tax_id, tax_parent, tax_rank). tax_id)
       (filter (\<lambda>(tax_id, tax_parent, tax_rank). tax_parent = n) nodes)"

definition root_lines :: "node_line list \<Rightarrow> node_line list" where
  "root_lines nodes = filter (\<lambda>(tax_id, tax_parent, tax_rank). tax_id = 1 \<and> tax_parent = 1) nodes"

text \<open>The identifiers with a retained line in the name source.\<close>

definition named_ids :: "name_line list \<Rightarrow> int set" where
  "named_ids names = fst ` set (name_keys names)"

text \<open>
  The example of the specification: a root, the genus Pinus below it and two species
  below the genus; \<open>pinus_tree\<close> is the object that \<open>construct_tree\<close> builds from it.
\<close>

definition pinus_names :: "name_line list" where
  "pinus_names =
     [(1, ''root'', ''scientific name''), (10, ''Pinus'', ''scientific name''),
      (10, ''pines'', ''genbank common name''), (10, ''Pinus L.'', ''authority''),
      (100, ''Pinus taeda'', ''scientific name''), (101, ''Pinus strobus'', ''scientific name'')]"

definition pinus_nodes :: "node_line list" where
  "pinus_nodes = [(1, 1, ''no rank''), (10, 1, ''genus''), (100, 10, ''species''), (101, 10, ''species'')]"

definition pinus_tree :: TaxonomyTree where
  "pinus_tree =
     \<lparr>taxonomy =
        [1 \<mapsto> \<lparr>name = Some ''root'', genbank_common_name = None, rank = Some ''no rank'',
                parent = None, children = [10]\<rparr>,
         10 \<mapsto> \<lparr>name = Some ''Pinus'', genbank_common_name = Some ''pines'', rank = Some ''genus'',
                parent = Some 1, children = [100, 101]\<rparr>,
         100 \<mapsto> \<lparr>name = Some ''Pinus taeda'', genbank_common_name = None, rank = Some ''species'',
                parent = Some 10, children = []\<rparr>,
         101 \<mapsto> \<lparr>name = Some ''Pinus strobus'', genbank_common_name = None, rank = Some ''species'',
                parent = Some 10, children = []\<rparr>],
      byranks = [''no rank'' \<mapsto> {1}, ''genus'' \<mapsto> {10}, ''species'' \<mapsto> {100, 101}],
      leaves = {100, 101},
      lineages = Map.empty, distances = Map.empty, lca_mappings = Map.empty\<rparr>"


section \<open>Vocabulary of the statements about queries\<close>

text \<open>
  \<open>path tax n l\<close>: \<open>l\<close> is the chain of parent links from the root, identifier 1 with
  parent \<open>None\<close>, down to \<open>n\<close>.
\<close>

inductive path :: "(int \<rightharpoonup> Node) \<Rightarrow> int \<Rightarrow> int list \<Rightarrow> bool" for tax :: "int \<rightharpoonup> Node" where
  path_root: "tax 1 = Some nd \<Longrightarrow> parent nd = None \<Longrightarrow> path tax 1 [1]"
| path_step: "tax n = Some nd \<Longrightarrow> parent nd = Some p \<Longrightarrow> path tax p l \<Longrightarrow> path tax n (l @ [n])"

text \<open>
  The built tree of the data model: the root is a key, identifiers are positive, and every
  key hangs below the root.
\<close>

definition well_formed :: "TaxonomyTree \<Rightarrow> bool" where
  "well_formed st \<longleftrightarrow>
     1 \<in> dom (taxonomy st) \<and> (\<forall>n \<in> dom (taxonomy st). 0 < n \<and> (\<exists>l. path (taxonomy st) n l))"

text \<open>
  What the memoisation dictionaries may hold: lineages that are paths, and for a pair of
  identifiers the last node and the edge count that their two paths determine. The
  dictionaries are empty after construction.
\<close>

definition lca_of_paths :: "int list \<Rightarrow> int list \<Rightarrow> int" where
  "lca_of_paths la lb = last (longest_common_prefix la lb)"

definition distance_of_paths :: "int list \<Rightarrow> int list \<Rightarrow> int" where
  "distance_of_paths la lb =
     int (length la) + int (length lb) - 2 * int (length (longest_common_prefix la lb))"

definition lineages_ok :: "(int \<rightharpoonup> Node) \<Rightarrow> (int \<rightharpoonup> int list) \<Rightarrow> bool" where
  "lineages_ok tax memo \<longleftrightarrow> (\<forall>n l. memo n = Some l \<longrightarrow> path tax n l)"

definition lcas_ok :: "(int \<rightharpoonup> Node) \<Rightarrow> (int \<rightharpoonup> (int \<rightharpoonup> int)) \<Rightarrow> bool" where
  "lcas_ok tax memo \<longleftrightarrow>
     (\<forall>s g v. cached memo s g = Some v \<longrightarrow>
        (\<exists>ls lg. path tax s ls \<and> path tax g lg \<and> v = lca_of_paths ls lg))"

definition distances_ok :: "(int \<rightharpoonup> Node) \<Rightarrow> (int \<rightharpoonup> (int \<rightharpoonup> int)) \<Rightarrow> bool" where
  "distances_ok tax memo \<longleftrightarrow>
     (\<forall>s g d. cached memo s g = Some d \<longrightarrow>
        (\<exists>ls lg. path tax s ls \<and> path tax g lg \<and> d = distance_of_paths ls lg))"

definition caches_ok :: "TaxonomyTree \<Rightarrow> bool" where
  "caches_ok st \<longleftrightarrow>
     lineages_ok (taxonomy st) (lineages st) \<and>
     lcas_ok (taxonomy st) (lca_mappings st) \<and>
     distances_ok (taxonomy st) (distances st)"

text \<open>
  A query leaves the tree as it is when the node mapping, the rank index and the leaf
  set are the same afterwards (only the memoisation dictionaries may have grown).
\<close>

definition unchanged :: "TaxonomyTree \<Rightarrow> TaxonomyTree \<Rightarrow> bool" where
  "unchanged st st' \<longleftrightarrow>
     taxonomy st' = taxonomy st \<and> byranks st' = byranks st \<and> leaves st' = leaves st"

text \<open>
  \<open>answers st\<close>: on every identifier of the tree the three ancestry queries return a
  value.
\<close>

definition answers :: "TaxonomyTree \<Rightarrow> bool" where
  "answers st \<longleftrightarrow>
     (\<forall>c \<in> dom (taxonomy st). \<exists>l s. get_lineage st [c] = Some (Inr [c \<mapsto> l], s)) \<and>
     (\<forall>c \<in> dom (taxonomy st). \<forall>d \<in> dom (taxonomy st). \<exists>v s. get_lca st c d = Some (Inr v, s)) \<and>
     (\<forall>c \<in> dom (taxonomy st). \<forall>d \<in> dom (taxonomy st). \<exists>v s. get_distance st c d = Some (Inr v, s))"

text \<open>The exception for an identifier that is no key of the node mapping.\<close>

definition unknown_taxon :: "TaxonomyTree \<Rightarrow> error \<Rightarrow> bool" where
  "unknown_taxon st e \<longleftrightarrow> (\<exists>k. e = KeyError (IntKey k) \<and> k \<notin> dom (taxonomy st))"

text \<open>
  A failure scoped to the query: the call raises the exception for an unknown
  identifier, leaves the tree as it was, and the queries on the identifiers of the tree
  still return afterwards.
\<close>

definition raises_unknown :: "TaxonomyTree \<Rightarrow> 'a outcome \<Rightarrow> bool" where
  "raises_unknown st r \<longleftrightarrow>
     (\<exists>e st'. r = Some (Inl e, st') \<and> unknown_taxon st e \<and> unchanged st st' \<and> answers st')"

text \<open>
  The code that the table \<open>translate_rank2code\<close> gives to a textual rank; a rank that is
  \<open>None\<close> is no key of the table.
\<close>

definition code_of_rank :: "string option \<Rightarrow> string option" where
  "code_of_rank r = (case r of None \<Rightarrow> None | Some t \<Rightarrow> translate_rank2code t)"

definition rank_of :: "TaxonomyTree \<Rightarrow> int \<Rightarrow> string option" where
  "rank_of st n = (case taxonomy st n of None \<Rightarrow> None | Some nd \<Rightarrow> rank nd)"

text \<open>
  Two further node sources: a root with two superkingdoms below it, and a source whose
  ranks are out of order, a genus recorded below a species.
\<close>

definition domains_names :: "name_line list" where
  "domains_names =
     [(1, ''root'', ''scientific name''), (2, ''Bacteria'', ''scientific name''),
      (2157, ''Archaea'', ''scientific name'')]"

definition domains_nodes :: "node_line list" where
  "domains_nodes = [(1, 1, ''no rank''), (2, 1, ''superkingdom''), (2157, 1, ''superkingdom'')]"

definition domains_tree :: TaxonomyTree where
  "domains_tree =
     \<lparr>taxonomy =
        [1 \<mapsto> \<lparr>name = Some ''root'', genbank_common_name = None, rank = Some ''no rank'',
                parent = None, children = [2, 2157]\<rparr>,
         2 \<mapsto> \<lparr>name = Some ''Bacteria'', genbank_common_name = None, rank = Some ''superkingdom'',
                parent = Some 1, children = []\<rparr>,
         2157 \<mapsto> \<lparr>name = Some ''Archaea'', genbank_common_name = None, rank = Some ''superkingdom'',
                parent = Some 1, children = []\<rparr>],
      byranks = [''no rank'' \<mapsto> {1}, ''superkingdom'' \<mapsto> {2, 2157}],
      leaves = {2, 2157},
      lineages = Map.empty, distances = Map.empty, lca_mappings = Map.empty\<rparr>"

definition inverted_names :: "name_line list" where
  "inverted_names =
     [(1, ''root'', ''scientific name''), (10, ''Pinus taeda'', ''scientific name''),
      (20, ''Pinus'', ''scientific name'')]"

definition inverted_nodes :: "node_line list" where
  "inverted_nodes = [(1, 1, ''no rank''), (10, 1, ''species''), (20, 10, ''genus'')]"

definition inverted_tree :: TaxonomyTree where
  "inverted_tree =
     \<lparr>taxonomy =
        [1 \<mapsto> \<lparr>name = Some ''root'', genbank_common_name = None, rank = Some ''no rank'',
                parent = None, children = [10]\<rparr>,
         10 \<mapsto> \<lparr>name = Some ''Pinus taeda'', genbank_common_name = None, rank = Some ''species'',
                parent = Some 1, children = [20]\<rparr>,
         20 \<mapsto> \<lparr>name = Some ''Pinus'', genbank_common_name = None, rank = Some ''genus'',
                parent = Some 10, children = []\<rparr>],
      byranks = [''no rank'' \<mapsto> {1}, ''species'' \<mapsto> {10}, ''genus'' \<mapsto> {20}],
      leaves = {20},
      lineages = Map.empty, distances = Map.empty, lca_mappings = Map.empty\<rparr>"

text \<open>
  A node source that describes a tree: \<open>last_parent\<close> is the parent on the last line of
  an identifier (a later line overwrites the parent of an earlier one), and every
  identifier of the source is positive and reaches 1 along these parents.
\<close>

definition last_parent :: "node_line list \<Rightarrow> int \<rightharpoonup> int" where
  "last_parent nodes = map_of (rev (map (\<lambda>(tax_id, tax_parent, tax_rank). (tax_id, tax_parent)) nodes))"

inductive source_path :: "node_line list \<Rightarrow> int \<Rightarrow> int list \<Rightarrow> bool" for nodes :: "node_line list" where
  source_root: "source_path nodes 1 [1]"
| source_step: "n \<noteq> 1 \<Longrightarrow> last_parent nodes n = Some p \<Longrightarrow> source_path nodes p l \<Longrightarrow> source_path nodes n (l @ [n])"

definition tree_source :: "node_line list \<Rightarrow> bool" where
  "tree_source nodes \<longleftrightarrow>
     (\<forall>n \<in> record_ids nodes \<union> parent_ids nodes. 0 < n \<and> (\<exists>l. source_path nodes n l))"

section \<open>Reading the name source\<close>

lemma in_seen:
  "(i, k) \<in> seen t2n \<longleftrightarrow> (\<exists>sci com. t2n i = Some (sci, com) \<and>
      ((k = ''scientific name'' \<and> sci \<noteq> None) \<or> (k = ''genbank common name'' \<and> com \<noteq> None)))"
  by (simp add: seen_def)

lemma wanted_cases:
  "t \<in> wanted_name_types \<longleftrightarrow> t = ''scientific name'' \<or> t = ''genbank common name''"
  by (simp add: wanted_name_types_def)

lemma kinds_differ: "''scientific name'' \<noteq> ''genbank common name''"
  by simp

lemma read_name_line_sci:
  "read_name_line t2n (i, n, ''scientific name'') =
     (case t2n i of
        None \<Rightarrow> Inr (t2n(i \<mapsto> (Some n, None)))
      | Some (sci, com) \<Rightarrow>
          if sci \<noteq> None then Inl (TaxonomyTreeException (MoreThanOneScientificName i))
          else Inr (t2n(i \<mapsto> (Some n, com))))"
  by (simp add: wanted_name_types_def dom_def split: option.splits)

lemma read_name_line_com:
  "read_name_line t2n (i, n, ''genbank common name'') =
     (case t2n i of
        None \<Rightarrow> Inr (t2n(i \<mapsto> (None, Some n)))
      | Some (sci, com) \<Rightarrow>
          if com \<noteq> None then Inl (TaxonomyTreeException (MoreThanOneGenbankCommonName i))
          else Inr (t2n(i \<mapsto> (sci, Some n))))"
  by (simp add: wanted_name_types_def dom_def split: option.splits)

lemma raises_simps [simp]: "raises P (Inl e) = P e" "raises P (Inr v) = False"
  by (simp_all add: raises_def)

lemma read_name_line_dup:
  assumes "t \<in> wanted_name_types" "(i, t) \<in> seen t2n"
  shows "raises duplicate_name_error (read_name_line t2n (i, n, t))"
proof -
  from assms(2) obtain sci com where s: "t2n i = Some (sci, com)"
    and k: "(t = ''scientific name'' \<and> sci \<noteq> None) \<or> (t = ''genbank common name'' \<and> com \<noteq> None)"
    unfolding in_seen by blast
  from k show ?thesis
  proof
    assume "t = ''scientific name'' \<and> sci \<noteq> None"
    then show ?thesis using s by (simp add: read_name_line_sci del: read_name_line.simps)
  next
    assume "t = ''genbank common name'' \<and> com \<noteq> None"
    then show ?thesis using s by (simp add: read_name_line_com del: read_name_line.simps)
  qed
qed

lemma seen_upd_sci:
  assumes "(i, ''scientific name'') \<notin> seen t2n"
  shows "seen (t2n(i \<mapsto> (Some n, case t2n i of None \<Rightarrow> None | Some (sci, com) \<Rightarrow> com)))
         = insert (i, ''scientific name'') (seen t2n)"
proof (rule set_eqI)
  fix x :: "int \<times> string"
  obtain j k where x: "x = (j, k)" by (cases x)
  show "x \<in> seen (t2n(i \<mapsto> (Some n, case t2n i of None \<Rightarrow> None | Some (sci, com) \<Rightarrow> com)))
        \<longleftrightarrow> x \<in> insert (i, ''scientific name'') (seen t2n)"
  proof (cases "j = i")
    case False
    then show ?thesis unfolding x by (simp add: in_seen)
  next
    case True
    show ?thesis
    proof (cases "t2n i")
      case None
      then show ?thesis unfolding x using True by (auto simp add: in_seen)
    next
      case (Some p)
      then show ?thesis unfolding x using True assms by (cases p) (auto simp add: in_seen)
    qed
  qed
qed

lemma seen_upd_com:
  assumes "(i, ''genbank common name'') \<notin> seen t2n"
  shows "seen (t2n(i \<mapsto> (case t2n i of None \<Rightarrow> None | Some (sci, com) \<Rightarrow> sci, Some n)))
         = insert (i, ''genbank common name'') (seen t2n)"
proof (rule set_eqI)
  fix x :: "int \<times> string"
  obtain j k where x: "x = (j, k)" by (cases x)
  show "x \<in> seen (t2n(i \<mapsto> (case t2n i of None \<Rightarrow> None | Some (sci, com) \<Rightarrow> sci, Some n)))
        \<longleftrightarrow> x \<in> insert (i, ''genbank common name'') (seen t2n)"
  proof (cases "j = i")
    case False
    then show ?thesis unfolding x by (simp add: in_seen)
  next
    case True
    show ?thesis
    proof (cases "t2n i")
      case None
      then show ?thesis unfolding x using True by (auto simp add: in_seen)
    next
      case (Some p)
      then show ?thesis unfolding x using True assms by (cases p) (auto simp add: in_seen)
    qed
  qed
qed

lemma read_name_line_fresh:
  assumes "t \<in> wanted_name_types" "(i, t) \<notin> seen t2n"
  shows "\<exists>t2n'. read_name_line t2n (i, n, t) = Inr t2n' \<and> seen t2n' = insert (i, t) (seen t2n)
           \<and> dom t2n' = insert i (dom t2n)"
proof -
  from assms(1) consider "t = ''scientific name''" | "t = ''genbank common name''"
    unfolding wanted_cases by blast
  then show ?thesis
  proof cases
    case 1
    have r: "read_name_line t2n (i, n, t) =
               Inr (t2n(i \<mapsto> (Some n, case t2n i of None \<Rightarrow> None | Some (sci, com) \<Rightarrow> com)))"
      using assms(2) unfolding 1 read_name_line_sci in_seen
      by (auto split: option.splits)
    show ?thesis unfolding r using seen_upd_sci[of i t2n n] assms(2) unfolding 1 by simp
  next
    case 2
    have r: "read_name_line t2n (i, n, t) =
               Inr (t2n(i \<mapsto> (case t2n i of None \<Rightarrow> None | Some (sci, com) \<Rightarrow> sci, Some n)))"
      using assms(2) unfolding 2 read_name_line_com in_seen
      by (auto split: option.splits)
    show ?thesis unfolding r using seen_upd_com[of i t2n n] assms(2) unfolding 2 by simp
  qed
qed


declare read_name_line.simps [simp del]

lemma name_keys_Nil: "name_keys [] = []"
  by (simp add: name_keys_def retained_def)

lemma name_keys_Cons:
  "name_keys ((i, n, t) # ls) = (if t \<in> wanted_name_types then (i, t) # name_keys ls else name_keys ls)"
  by (simp add: name_keys_def retained_def)

lemma read_name_line_skip:
  "t \<notin> wanted_name_types \<Longrightarrow> read_name_line t2n (i, n, t) = Inr t2n"
  by (simp add: read_name_line.simps)

lemma read_names_dup:
  "\<not> (distinct (name_keys ls) \<and> set (name_keys ls) \<inter> seen t2n = {}) \<Longrightarrow>
     raises duplicate_name_error (read_names t2n ls)"
proof (induction ls arbitrary: t2n)
  case Nil
  then show ?case by (simp add: name_keys_Nil)
next
  case (Cons l ls)
  obtain i n t where l: "l = (i, n, t)" by (cases l)
  show ?case
  proof (cases "t \<in> wanted_name_types")
    case False
    with Cons l show ?thesis by (simp add: name_keys_Cons read_name_line_skip)
  next
    case w: True
    show ?thesis
    proof (cases "(i, t) \<in> seen t2n")
      case True
      from read_name_line_dup[OF w True, of n]
      show ?thesis unfolding l
        by (cases "read_name_line t2n (i, n, t)") simp_all
    next
      case False
      from read_name_line_fresh[OF w False, of n] obtain t2n' where
        r: "read_name_line t2n (i, n, t) = Inr t2n'" and s: "seen t2n' = insert (i, t) (seen t2n)"
        by blast
      have "\<not> (distinct (name_keys ls) \<and> set (name_keys ls) \<inter> seen t2n' = {})"
        using Cons.prems False w unfolding l s by (auto simp: name_keys_Cons)
      from Cons.IH[OF this] show ?thesis unfolding l using r by simp
    qed
  qed
qed

lemma read_names_ok:
  "distinct (name_keys ls) \<Longrightarrow> set (name_keys ls) \<inter> seen t2n = {} \<Longrightarrow>
     \<exists>t2n'. read_names t2n ls = Inr t2n' \<and> dom t2n' = dom t2n \<union> fst ` set (name_keys ls)"
proof (induction ls arbitrary: t2n)
  case Nil
  then show ?case by (simp add: name_keys_Nil)
next
  case (Cons l ls)
  obtain i n t where l: "l = (i, n, t)" by (cases l)
  show ?case
  proof (cases "t \<in> wanted_name_types")
    case False
    with Cons l show ?thesis by (simp add: name_keys_Cons read_name_line_skip)
  next
    case w: True
    have nd: "(i, t) \<notin> seen t2n" using Cons.prems w unfolding l by (auto simp: name_keys_Cons)
    from read_name_line_fresh[OF w nd, of n] obtain t2n' where
      r: "read_name_line t2n (i, n, t) = Inr t2n'" and s: "seen t2n' = insert (i, t) (seen t2n)"
      and d: "dom t2n' = insert i (dom t2n)"
      by blast
    have 1: "distinct (name_keys ls)" and 2: "set (name_keys ls) \<inter> seen t2n' = {}"
      using Cons.prems w unfolding l s by (auto simp: name_keys_Cons)
    from Cons.IH[OF 1 2] obtain t2n'' where
      "read_names t2n' ls = Inr t2n''" "dom t2n'' = dom t2n' \<union> fst ` set (name_keys ls)" by blast
    then show ?thesis unfolding l using r d w by (auto simp: name_keys_Cons)
  qed
qed

lemma seen_empty: "seen Map.empty = {}"
  by (simp add: seen_def)

lemma read_node_line_error:
  "read_node_line t2n st l = Inl e \<Longrightarrow> \<exists>k. e = KeyError (IntKey k) \<and> k \<notin> dom t2n"
  by (cases l) (auto simp: Let_def split: option.splits prod.splits)

declare read_node_line.simps [simp del]

lemma read_nodes_error:
  "read_nodes t2n st ls = Inl e \<Longrightarrow> \<exists>k. e = KeyError (IntKey k) \<and> k \<notin> dom t2n"
proof (induction ls arbitrary: st)
  case Nil
  then show ?case by simp
next
  case (Cons l ls)
  then show ?case
    by (cases "read_node_line t2n st l") (auto dest: read_node_line_error)
qed

text \<open>
  Claim C9. Construction ends in the exception for a duplicated name exactly when the name
  source holds two retained lines with the same identifier and the same name type (a
  second scientific name, or a second genbank common name, for an identifier that already
  has one); a name source with at most one name of each kind per identifier never raises
  it. The exception leaves \<open>construct_tree\<close>, so the build aborts.
\<close>

theorem duplicate_name_aborts:
  "raises duplicate_name_error (construct_tree names nodes) = (\<not> distinct (name_keys names))"
proof (cases "distinct (name_keys names)")
  case True
  from read_names_ok[OF True, of Map.empty] obtain t2n where
    r: "read_names Map.empty names = Inr t2n" by (auto simp: seen_empty)
  have "\<not> raises duplicate_name_error (construct_tree names nodes)"
  proof (cases "read_nodes t2n empty_tree nodes")
    case (Inl e)
    from read_nodes_error[OF Inl] show ?thesis
      using r Inl by (auto simp: construct_tree_def)
  next
    case (Inr st)
    then show ?thesis using r
      by (auto simp: construct_tree_def split: option.splits)
  qed
  with True show ?thesis by simp
next
  case False
  then have "raises duplicate_name_error (read_names Map.empty names)"
    by (intro read_names_dup) simp
  then have "raises duplicate_name_error (construct_tree names nodes)"
    by (cases "read_names Map.empty names") (auto simp: construct_tree_def)
  with False show ?thesis by simp
qed

theorem duplicate_name_aborts_witness:
  "raises duplicate_name_error
     (construct_tree [(9, ''Pinus'', ''scientific name''), (9, ''pine'', ''genbank common name''),
                      (9, ''Pinus L.'', ''scientific name'')] [(1, 1, ''no rank'')])
   \<and> \<not> raises duplicate_name_error
     (construct_tree [(1, ''root'', ''scientific name''), (9, ''Pinus'', ''scientific name''),
                      (9, ''pine'', ''genbank common name''), (9, ''pines'', ''common name'')]
                     [(1, 1, ''no rank''), (9, 1, ''genus'')])"
proof -
  have a: "\<not> distinct (name_keys [(9, ''Pinus'', ''scientific name''), (9, ''pine'', ''genbank common name''),
                      (9, ''Pinus L.'', ''scientific name'')])"
    by (simp add: name_keys_Cons name_keys_Nil wanted_cases)
  have b: "distinct (name_keys [(1, ''root'', ''scientific name''), (9, ''Pinus'', ''scientific name''),
                      (9, ''pine'', ''genbank common name''), (9, ''pines'', ''common name'')])"
    by (simp add: name_keys_Cons name_keys_Nil wanted_cases)
  show ?thesis
    using a b duplicate_name_aborts[of "[(9, ''Pinus'', ''scientific name''), (9, ''pine'', ''genbank common name''),
                      (9, ''Pinus L.'', ''scientific name'')]" "[(1, 1, ''no rank'')]"]
      duplicate_name_aborts[of "[(1, ''root'', ''scientific name''), (9, ''Pinus'', ''scientific name''),
                      (9, ''pine'', ''genbank common name''), (9, ''pines'', ''common name'')]"
                     "[(1, 1, ''no rank''), (9, 1, ''genus'')]"]
    by simp
qed

section \<open>Reading the node source\<close>

lemma read_node_line_fail_id:
  "t2n i = None \<Longrightarrow> read_node_line t2n st (i, p, r) = Inl (KeyError (IntKey i))"
  by (simp add: read_node_line.simps)

lemma read_node_line_fail_parent:
  assumes "t2n i \<noteq> None" "t2n p = None" "taxonomy st p = None" "p \<noteq> i"
  shows "read_node_line t2n st (i, p, r) = Inl (KeyError (IntKey p))"
  using assms by (auto simp: read_node_line.simps Let_def split: option.splits)

lemma read_node_line_Inr:
  assumes "read_node_line t2n st (i, p, r) = Inr st'"
  shows "dom (taxonomy st') = insert i (insert p (dom (taxonomy st)))"
    and "children_of st' n = children_of st n @ (if n = p then [i] else [])"
    and "parent_of st' n = (if n = i then Some p else parent_of st n)"
    and "i \<in> dom t2n"
    and "p \<in> dom t2n \<or> p \<in> dom (taxonomy st) \<or> p = i"
  using assms
  by (auto simp: read_node_line.simps Let_def children_of_def parent_of_def
      split: option.splits prod.splits if_splits)

lemma record_ids_Cons: "record_ids ((i, p, r) # ls) = insert i (record_ids ls)"
  by (simp add: record_ids_def)

lemma parent_ids_Cons: "parent_ids ((i, p, r) # ls) = insert p (parent_ids ls)"
  by (simp add: parent_ids_def)

lemma children_lines_Cons:
  "children_lines n ((i, p, r) # ls) = (if p = n then i # children_lines n ls else children_lines n ls)"
  by (simp add: children_lines_def)

lemma ids_Nil: "record_ids [] = {}" "parent_ids [] = {}" "children_lines n [] = []"
  by (simp_all add: record_ids_def parent_ids_def children_lines_def)

lemma read_nodes_Inr:
  assumes "read_nodes t2n st ls = Inr st'"
  shows "dom (taxonomy st') = dom (taxonomy st) \<union> record_ids ls \<union> parent_ids ls"
    and "children_of st' n = children_of st n @ children_lines n ls"
    and "parent_of st' n = None \<Longrightarrow> parent_of st n = None \<and> n \<notin> record_ids ls"
  using assms
proof (induction ls arbitrary: st)
  case Nil
  { case 1 then show ?case by (simp add: ids_Nil) }
  { case 2 then show ?case by (simp add: ids_Nil) }
  { case 3 then show ?case by (simp add: ids_Nil) }
next
  case (Cons l ls)
  obtain i p r where l: "l = (i, p, r)" by (cases l)
  { case 1
    then obtain st1 where a: "read_node_line t2n st (i, p, r) = Inr st1"
      and b: "read_nodes t2n st1 ls = Inr st'"
      unfolding l by (cases "read_node_line t2n st (i, p, r)") simp_all
    show ?case unfolding l Cons.IH(1)[OF b] read_node_line_Inr(1)[OF a]
      by (auto simp: record_ids_Cons parent_ids_Cons) }
  { case 2
    then obtain st1 where a: "read_node_line t2n st (i, p, r) = Inr st1"
      and b: "read_nodes t2n st1 ls = Inr st'"
      unfolding l by (cases "read_node_line t2n st (i, p, r)") simp_all
    show ?case unfolding l Cons.IH(2)[OF b] read_node_line_Inr(2)[OF a]
      by (simp add: children_lines_Cons) }
  { case 3
    from 3(2) obtain st1 where a: "read_node_line t2n st (i, p, r) = Inr st1"
      and b: "read_nodes t2n st1 ls = Inr st'"
      unfolding l by (cases "read_node_line t2n st (i, p, r)") simp_all
    from Cons.IH(3)[OF 3(1) b] have "parent_of st1 n = None" "n \<notin> record_ids ls" by simp_all
    then show ?case unfolding l using read_node_line_Inr(3)[OF a, of n]
      by (auto simp: record_ids_Cons split: if_splits) }
qed

lemma read_nodes_missing:
  assumes "dom (taxonomy st) \<subseteq> dom t2n" "\<not> (record_ids ls \<union> parent_ids ls \<subseteq> dom t2n)"
  shows "\<exists>k. read_nodes t2n st ls = Inl (KeyError (IntKey k)) \<and> k \<notin> dom t2n
              \<and> k \<in> record_ids ls \<union> parent_ids ls"
  using assms
proof (induction ls arbitrary: st)
  case Nil
  then show ?case by (simp add: ids_Nil)
next
  case (Cons l ls)
  obtain i p r where l: "l = (i, p, r)" by (cases l)
  show ?case
  proof (cases "read_node_line t2n st (i, p, r)")
    case (Inl e)
    have "e = KeyError (IntKey i) \<and> i \<notin> dom t2n \<or> e = KeyError (IntKey p) \<and> p \<notin> dom t2n"
      using Inl by (auto simp: read_node_line.simps Let_def split: option.splits prod.splits)
    then show ?thesis unfolding l using Inl
      by (auto simp: record_ids_Cons parent_ids_Cons)
  next
    case (Inr st1)
    note f = read_node_line_Inr[OF Inr]
    have ip: "i \<in> dom t2n" "p \<in> dom t2n" using f(4) f(5) Cons.prems(1) by auto
    have d: "dom (taxonomy st1) \<subseteq> dom t2n" unfolding f(1) using Cons.prems(1) ip by auto
    have "\<not> (record_ids ls \<union> parent_ids ls \<subseteq> dom t2n)"
      using Cons.prems(2) ip unfolding l by (auto simp: record_ids_Cons parent_ids_Cons)
    from Cons.IH[OF d this] show ?thesis unfolding l using Inr
      by (auto simp: record_ids_Cons parent_ids_Cons)
  qed
qed

lemma count_children_lines:
  "count_list (children_lines 1 ls) 1 = length (root_lines ls)"
proof (induction ls)
  case Nil
  then show ?case by (simp add: children_lines_def root_lines_def)
next
  case (Cons l ls)
  obtain i p r where l: "l = (i, p, r)" by (cases l)
  from Cons show ?case unfolding l
    by (simp add: children_lines_Cons root_lines_def)
qed

lemma count_list_pos: "0 < count_list xs x \<longleftrightarrow> x \<in> set xs"
  by (induction xs) auto

lemma in_remove1_iff: "x \<in> set (remove1 x xs) \<longleftrightarrow> 1 < count_list xs x"
  by (induction xs) (auto simp: count_list_pos dest: notin_set_remove1)

lemma children_of_empty: "children_of empty_tree n = []" "parent_of empty_tree n = None"
  by (simp_all add: children_of_def parent_of_def empty_tree_def)

text \<open>
  Claim C10. When the name source is read without error and some identifier of the node
  source, a record's own identifier or a parent identifier, has no retained line in the
  name source, \<open>construct_tree\<close> ends in a \<open>KeyError\<close> for such an identifier: the
  lookup in \<open>taxid2name\<close> fails and nothing handles it.
\<close>

theorem missing_name_key_error:
  assumes "distinct (name_keys names)"
    and "\<not> (record_ids nodes \<union> parent_ids nodes \<subseteq> named_ids names)"
  shows "\<exists>k. construct_tree names nodes = Inl (KeyError (IntKey k))
             \<and> k \<in> record_ids nodes \<union> parent_ids nodes \<and> k \<notin> named_ids names"
proof -
  from read_names_ok[OF assms(1), of Map.empty] obtain t2n where
    r: "read_names Map.empty names = Inr t2n" and d: "dom t2n = named_ids names"
    by (auto simp: seen_empty named_ids_def)
  have e: "dom (taxonomy empty_tree) \<subseteq> dom t2n" by (simp add: empty_tree_def)
  from read_nodes_missing[OF e, of nodes] assms(2) d obtain k where
    "read_nodes t2n empty_tree nodes = Inl (KeyError (IntKey k))" "k \<notin> dom t2n"
    "k \<in> record_ids nodes \<union> parent_ids nodes" by auto
  then show ?thesis using r d by (auto simp: construct_tree_def)
qed

text \<open>
  The adjustment of the root after the loop: \<open>list.remove\<close> takes one occurrence of 1 out
  of the children of the root, which hold 1 once for every line that records 1 as its
  own parent.
\<close>

lemma root_adjusted:
  assumes "construct_tree names nodes = Inr st"
    and "parent_ids nodes \<subseteq> record_ids nodes"
  shows "\<exists>root. taxonomy st 1 = Some root \<and> parent root = None
           \<and> (\<forall>n nd. taxonomy st n = Some nd \<and> parent nd = None \<longrightarrow> n = 1)
           \<and> 1 \<le> length (root_lines nodes)
           \<and> ((1 \<notin> set (children root)) = (length (root_lines nodes) = 1))"
proof -
  from assms(1) obtain t2n st0 root0 where
    b: "read_nodes t2n empty_tree nodes = Inr st0"
    and r0: "taxonomy st0 1 = Some root0" and c0: "1 \<in> set (children root0)"
    and st: "st = st0\<lparr>taxonomy := (taxonomy st0)(1 \<mapsto> root0\<lparr>parent := None, children := remove1 1 (children root0)\<rparr>)\<rparr>"
    by (auto simp: construct_tree_def split: sum.splits option.splits if_splits)
  note f = read_nodes_Inr[OF b]
  have ch: "children root0 = children_lines 1 nodes"
    using f(2)[of 1] r0 unfolding children_of_empty by (simp add: children_of_def)
  have only: "n = 1" if "taxonomy st n = Some nd" "parent nd = None" for n nd
  proof (rule ccontr)
    assume n: "n \<noteq> 1"
    with that have t: "taxonomy st0 n = Some nd" unfolding st by simp
    then have "parent_of st0 n = None" using that(2) by (simp add: parent_of_def)
    from f(3)[OF this] have "n \<notin> record_ids nodes" by simp
    moreover have "n \<in> record_ids nodes \<union> parent_ids nodes"
      using t f(1) by (auto simp: empty_tree_def)
    ultimately show False using assms(2) by auto
  qed
  have cnt: "1 \<le> length (root_lines nodes)"
    using c0 unfolding ch count_children_lines[symmetric]
    using count_list_pos[of "children_lines 1 nodes" 1] by simp
  define root where "root = root0\<lparr>parent := None, children := remove1 1 (children root0)\<rparr>"
  have t1: "taxonomy st 1 = Some root" unfolding st root_def by simp
  have p: "parent root = None" unfolding root_def by simp
  have "(1 \<notin> set (remove1 1 (children root0))) = (length (root_lines nodes) = 1)"
    unfolding in_remove1_iff ch count_children_lines using cnt by auto
  then have c: "(1 \<notin> set (children root)) = (length (root_lines nodes) = 1)"
    unfolding root_def by simp
  have o: "\<forall>n nd. taxonomy st n = Some nd \<and> parent nd = None \<longrightarrow> n = 1"
    using only by blast
  from t1 p o cnt c show ?thesis by blast
qed

lemma root_lines_distinct:
  "distinct (map fst nodes) \<Longrightarrow> length (root_lines nodes) \<le> 1"
proof (induction nodes)
  case Nil
  then show ?case by (simp add: root_lines_def)
next
  case (Cons l ls)
  obtain i p r where l: "l = (i, p, r)" by (cases l)
  show ?case
  proof (cases "i = 1 \<and> p = 1")
    case False
    with Cons show ?thesis unfolding l by (auto simp: root_lines_def)
  next
    case True
    with Cons.prems have "1 \<notin> fst ` set ls" unfolding l by simp
    then have "filter (\<lambda>(tax_id, tax_parent, tax_rank). tax_id = 1 \<and> tax_parent = 1) ls = []"
      by (force simp: filter_empty_conv)
    with True show ?thesis unfolding l by (simp add: root_lines_def)
  qed
qed

text \<open>
  Claim C5. After \<open>construct_tree\<close> succeeds on a node source in which every identifier
  has one record line and every referenced identifier has a record line of its own, the
  root has parent \<open>None\<close>, is absent from its own children, and is the only node whose
  parent is \<open>None\<close>.
\<close>

theorem root_normalised:
  assumes "construct_tree names nodes = Inr st"
    and "parent_ids nodes \<subseteq> record_ids nodes"
    and "distinct (map fst nodes)"
  shows "\<exists>root. taxonomy st 1 = Some root \<and> parent root = None
           \<and> 1 \<notin> set (children root)
           \<and> (\<forall>n nd. taxonomy st n = Some nd \<and> parent nd = None \<longrightarrow> n = 1)"
proof -
  from root_adjusted[OF assms(1,2)] obtain root where
    r: "taxonomy st 1 = Some root" "parent root = None"
       "\<forall>n nd. taxonomy st n = Some nd \<and> parent nd = None \<longrightarrow> n = 1"
    and c: "1 \<le> length (root_lines nodes)"
       "(1 \<notin> set (children root)) = (length (root_lines nodes) = 1)" by blast
  from c root_lines_distinct[OF assms(3)] have "1 \<notin> set (children root)" by simp
  with r show ?thesis by blast
qed

lemma pinus_read_names:
  "read_names Map.empty pinus_names =
     Inr [1 \<mapsto> (Some ''root'', None), 10 \<mapsto> (Some ''Pinus'', Some ''pines''),
          100 \<mapsto> (Some ''Pinus taeda'', None), 101 \<mapsto> (Some ''Pinus strobus'', None)]"
  by (simp add: pinus_names_def read_name_line.simps wanted_name_types_def)

lemma pinus_construct: "construct_tree pinus_names pinus_nodes = Inr pinus_tree"
  unfolding construct_tree_def pinus_read_names
  apply (simp add: pinus_nodes_def read_node_line.simps empty_tree_def add_byrank_def Let_def pinus_tree_def)
  apply (auto simp: fun_eq_iff)
  done

theorem root_normalised_witness:
  "construct_tree pinus_names pinus_nodes = Inr pinus_tree
   \<and> parent_ids pinus_nodes \<subseteq> record_ids pinus_nodes
   \<and> distinct (map fst pinus_nodes)
   \<and> (\<exists>root. taxonomy pinus_tree 1 = Some root \<and> parent root = None
           \<and> 1 \<notin> set (children root)
           \<and> (\<forall>n nd. taxonomy pinus_tree n = Some nd \<and> parent nd = None \<longrightarrow> n = 1))"
proof -
  have s: "parent_ids pinus_nodes \<subseteq> record_ids pinus_nodes"
    by (simp add: parent_ids_def record_ids_def pinus_nodes_def)
  have d: "distinct (map fst pinus_nodes)" by (simp add: pinus_nodes_def)
  from root_normalised[OF pinus_construct s d] pinus_construct s d show ?thesis by blast
qed

theorem missing_name_key_error_witness:
  "distinct (name_keys [(1, ''root'', ''scientific name'')])
   \<and> \<not> (record_ids [(1, 1, ''no rank''), (10, 1, ''genus'')] \<union> parent_ids [(1, 1, ''no rank''), (10, 1, ''genus'')]
          \<subseteq> named_ids [(1, ''root'', ''scientific name'')])
   \<and> (\<exists>k. construct_tree [(1, ''root'', ''scientific name'')] [(1, 1, ''no rank''), (10, 1, ''genus'')]
             = Inl (KeyError (IntKey k))
          \<and> k \<in> record_ids [(1, 1, ''no rank''), (10, 1, ''genus'')] \<union> parent_ids [(1, 1, ''no rank''), (10, 1, ''genus'')]
          \<and> k \<notin> named_ids [(1, ''root'', ''scientific name'')])"
proof -
  have a: "distinct (name_keys [(1, ''root'', ''scientific name'')])"
    by (simp add: name_keys_Cons name_keys_Nil wanted_cases)
  have b: "\<not> (record_ids [(1, 1, ''no rank''), (10, 1, ''genus'')] \<union> parent_ids [(1, 1, ''no rank''), (10, 1, ''genus'')]
          \<subseteq> named_ids [(1, ''root'', ''scientific name'')])"
    by (simp add: record_ids_def parent_ids_def named_ids_def name_keys_Cons name_keys_Nil wanted_cases)
  from missing_name_key_error[OF a b] a b show ?thesis by blast
qed

section \<open>The ancestry queries on a built tree\<close>

lemma path_nonempty: "path tax n l \<Longrightarrow> l \<noteq> []"
  by (induction rule: path.induct) auto

lemma path_last: "path tax n l \<Longrightarrow> last l = n"
  by (induction rule: path.induct) auto

lemma path_hd: "path tax n l \<Longrightarrow> hd l = 1"
  by (induction rule: path.induct) (auto simp: path_nonempty)

lemma path_key: "path tax n l \<Longrightarrow> n \<in> dom tax"
  by (induction rule: path.induct) auto

lemma path_unique: "path tax n l \<Longrightarrow> path tax n l' \<Longrightarrow> l = l'"
proof (induction arbitrary: l' rule: path.induct)
  case (path_root nd)
  from path_root.prems path_root.hyps show ?case
    by (cases rule: path.cases) auto
next
  case (path_step n nd p l)
  from path_step.prems show ?case
  proof (cases rule: path.cases)
    case (path_root nd')
    with path_step.hyps show ?thesis by simp
  next
    case (path_step nd' p' m)
    with path_step.hyps have "p' = p" by simp
    with path_step.IH[of m] path_step show ?thesis by simp
  qed
qed

lemma path_prefix:
  "path tax n l \<Longrightarrow> prefix l' l \<Longrightarrow> l' \<noteq> [] \<Longrightarrow> path tax (last l') l'"
proof (induction arbitrary: l' rule: path.induct)
  case (path_root nd)
  then have "l' = [1]" by (cases l') (auto simp: prefix_Cons)
  with path_root show ?case by (auto intro: path.path_root)
next
  case (path_step n nd p l)
  show ?case
  proof (cases "l' = l @ [n]")
    case True
    with path_step.hyps show ?thesis by (auto intro: path.path_step)
  next
    case False
    with path_step.prems have "prefix l' l" by (auto simp: prefix_snoc)
    from path_step.IH[OF this path_step.prems(2)] show ?thesis .
  qed
qed

lemma path_members: "path tax n l \<Longrightarrow> x \<in> set l \<Longrightarrow> \<exists>l'. prefix l' l \<and> path tax x l'"
proof -
  assume p: "path tax n l" and x: "x \<in> set l"
  from x obtain ys zs where l: "l = ys @ x # zs" by (auto simp: in_set_conv_decomp)
  have "prefix (ys @ [x]) l" unfolding l by (simp add: prefix_def)
  from path_prefix[OF p this] this show ?thesis by auto
qed

lemma path_distinct: "path tax n l \<Longrightarrow> distinct l"
proof (induction rule: path.induct)
  case (path_root nd)
  then show ?case by simp
next
  case (path_step n nd p l)
  have "n \<notin> set l"
  proof
    assume "n \<in> set l"
    from path_members[OF path_step.hyps(3) this] obtain l' where
      a: "prefix l' l" and b: "path tax n l'" by blast
    have "path tax n (l @ [n])" using path_step.hyps by (auto intro: path.path_step)
    from path_unique[OF b this] a show False by (auto simp: prefix_def)
  qed
  with path_step.IH show ?case by simp
qed

lemma path_keys: "path tax n l \<Longrightarrow> set l \<subseteq> dom tax"
  using path_members path_key by fast

lemma paths_common:
  assumes "path tax a la" "path tax b lb"
  shows "set la \<inter> set lb = set (longest_common_prefix la lb)"
proof
  show "set (longest_common_prefix la lb) \<subseteq> set la \<inter> set lb"
    using longest_common_prefix_prefix1[of la lb] longest_common_prefix_prefix2[of la lb]
    by (auto dest: set_mono_prefix)
next
  show "set la \<inter> set lb \<subseteq> set (longest_common_prefix la lb)"
  proof
    fix x assume "x \<in> set la \<inter> set lb"
    then have xa: "x \<in> set la" and xb: "x \<in> set lb" by auto
    from path_members[OF assms(1) xa] obtain l1 where 1: "prefix l1 la" "path tax x l1" by blast
    from path_members[OF assms(2) xb] obtain l2 where 2: "prefix l2 lb" "path tax x l2" by blast
    from path_unique[OF 1(2) 2(2)] have "l1 = l2" .
    with 1 2 have "prefix l1 (longest_common_prefix la lb)"
      by (simp add: longest_common_prefix_max_prefix)
    moreover have "x \<in> set l1" using path_last[OF 1(2)] path_nonempty[OF 1(2)] last_in_set by metis
    ultimately show "x \<in> set (longest_common_prefix la lb)" by (auto dest: set_mono_prefix)
  qed
qed

lemma paths_lcp_nonempty:
  assumes "path tax a la" "path tax b lb"
  shows "longest_common_prefix la lb \<noteq> []"
proof -
  from assms have "hd la = 1" "hd lb = 1" "la \<noteq> []" "lb \<noteq> []"
    by (auto simp: path_hd path_nonempty)
  then show ?thesis by (cases la; cases lb) auto
qed

lemma paths_card_common:
  assumes "path tax a la" "path tax b lb"
  shows "card (set la \<inter> set lb) = length (longest_common_prefix la lb)"
proof -
  have "distinct (longest_common_prefix la lb)"
    using path_distinct[OF assms(1)] longest_common_prefix_prefix1[of la lb]
    by (metis distinct_append prefix_def)
  then show ?thesis unfolding paths_common[OF assms] by (simp add: distinct_card)
qed

lemma item_last_prefix:
  assumes "prefix ys xs" "ys \<noteq> []"
  shows "item xs (int (length ys) - 1) = Inr (last ys)"
proof -
  from assms obtain zs where xs: "xs = ys @ zs" by (auto simp: prefix_def)
  have "length ys - 1 < length ys" using assms(2) by simp
  then have "xs ! (length ys - 1) = last ys" unfolding xs
    by (simp add: nth_append last_conv_nth assms(2))
  moreover have "nat (int (length ys) - 1) = length ys - 1" by simp
  moreover have "0 \<le> int (length ys) - 1" "int (length ys) - 1 < int (length xs)"
    using assms(2) unfolding xs by (cases ys; simp)+
  ultimately show ?thesis by (simp add: item_def)
qed

lemma paths_item_lca:
  assumes "path tax a la" "path tax b lb"
  shows "item la (int (card (set la \<inter> set lb)) - 1) = Inr (lca_of_paths la lb)"
  unfolding paths_card_common[OF assms] lca_of_paths_def
  by (rule item_last_prefix) (simp_all add: longest_common_prefix_prefix1 paths_lcp_nonempty[OF assms])

lemma well_formed_nonempty: "well_formed st \<Longrightarrow> taxonomy st \<noteq> Map.empty"
  by (auto simp: well_formed_def)

lemma well_formed_path: "well_formed st \<Longrightarrow> taxonomy st n = Some nd \<Longrightarrow> \<exists>l. path (taxonomy st) n l"
  by (auto simp: well_formed_def)

lemma well_formed_nonzero: "well_formed st \<Longrightarrow> taxonomy st 0 = None"
  by (fastforce simp: well_formed_def)

lemma well_formed_cong: "taxonomy st' = taxonomy st \<Longrightarrow> well_formed st' = well_formed st"
  by (simp add: well_formed_def)

lemma subscript_upd [simp]: "subscript (d(k \<mapsto> v)) k = Inr v"
  by (simp add: subscript_def)

lemma single_get_node:
  "taxonomy st \<noteq> Map.empty \<Longrightarrow>
     single (get_node st) n =
       (case taxonomy st n of None \<Rightarrow> Inl (KeyError (IntKey n)) | Some nd \<Rightarrow> Inr nd)"
  by (simp add: single_def get_node_def split: option.splits)

lemma lineage_loop_path:
  assumes ne: "taxonomy st \<noteq> Map.empty" and z: "taxonomy st 0 = None"
  shows "path (taxonomy st) n l \<Longrightarrow> taxonomy st n = Some nd \<Longrightarrow>
           lineage_loop st nd acc = Some (Inr (acc @ tl (rev l)))"
proof (induction arbitrary: nd acc rule: path.induct)
  case (path_root r)
  then show ?case by (subst lineage_loop.simps) simp
next
  case (path_step n nd' p l)
  from path_step.hyps path_step.prems have pn: "parent nd = Some p" by simp
  from path_key[OF path_step.hyps(3)] obtain ndp where ndp: "taxonomy st p = Some ndp" by auto
  with z have p0: "p \<noteq> 0" by auto
  obtain l0 where l0: "l = l0 @ [p]"
    using path_nonempty[OF path_step.hyps(3)] path_last[OF path_step.hyps(3)]
    by (cases l rule: rev_cases) auto
  have "lineage_loop st nd acc = lineage_loop st ndp (acc @ [p])"
    by (subst lineage_loop.simps) (simp add: pn p0 single_get_node[OF ne] ndp)
  also have "\<dots> = Some (Inr ((acc @ [p]) @ tl (rev l)))"
    by (rule path_step.IH[OF ndp])
  also have "(acc @ [p]) @ tl (rev l) = acc @ tl (rev (l @ [n]))"
    unfolding l0 by simp
  finally show ?case .
qed

lemma lineage_loop_rev:
  assumes "taxonomy st \<noteq> Map.empty" "taxonomy st 0 = None"
    "path (taxonomy st) n l" "taxonomy st n = Some nd"
  shows "lineage_loop st nd [n] = Some (Inr (rev l))"
proof -
  obtain l0 where l0: "l = l0 @ [n]"
    using path_nonempty[OF assms(3)] path_last[OF assms(3)]
    by (cases l rule: rev_cases) auto
  from lineage_loop_path[OF assms, of "[n]"] show ?thesis unfolding l0 by simp
qed

lemma lineages_ok_upd:
  "lineages_ok tax memo \<Longrightarrow> path tax n l \<Longrightarrow> lineages_ok tax (memo(n \<mapsto> l))"
  by (simp add: lineages_ok_def)

lemma get_lineage_loop_ok:
  assumes "well_formed st" "lineages_ok (taxonomy st) (lineages st)"
    "set ids \<subseteq> dom (taxonomy st)"
  shows "\<exists>memo d'. get_lineage_loop st ids d = Some (Inr d', st\<lparr>lineages := memo\<rparr>)
           \<and> lineages_ok (taxonomy st) memo
           \<and> (\<forall>i l. i \<in> set ids \<longrightarrow> path (taxonomy st) i l \<longrightarrow> d' i = Some l)
           \<and> (\<forall>i. i \<notin> set ids \<longrightarrow> d' i = d i)"
  using assms
proof (induction ids arbitrary: st d)
  case Nil
  have "st = st\<lparr>lineages := lineages st\<rparr>" by simp
  with Nil show ?case by (metis empty_iff empty_set get_lineage_loop.simps(1))
next
  case (Cons i ids)
  from Cons.prems(3) obtain nd where nd: "taxonomy st i = Some nd" by auto
  from well_formed_path[OF Cons.prems(1) nd] obtain li where li: "path (taxonomy st) i li" by blast
  note ne = well_formed_nonempty[OF Cons.prems(1)]
  note z = well_formed_nonzero[OF Cons.prems(1)]
  define st1 where "st1 = (case lineages st i of Some l \<Rightarrow> st | None \<Rightarrow> st\<lparr>lineages := (lineages st)(i \<mapsto> li)\<rparr>)"
  have step: "get_lineage_loop st (i # ids) d = get_lineage_loop st1 ids (d(i \<mapsto> li))"
  proof (cases "lineages st i")
    case None
    then show ?thesis
      by (simp add: st1_def single_get_node[OF ne] nd lineage_loop_rev[OF ne z li nd])
  next
    case (Some l)
    with Cons.prems(2) have "path (taxonomy st) i l" by (simp add: lineages_ok_def)
    from path_unique[OF this li] Some show ?thesis by (simp add: st1_def)
  qed
  have t1: "taxonomy st1 = taxonomy st" by (simp add: st1_def split: option.splits)
  have wf1: "well_formed st1" using Cons.prems(1) well_formed_cong[OF t1] by simp
  have ok1: "lineages_ok (taxonomy st1) (lineages st1)"
    unfolding t1 using Cons.prems(2) li by (auto simp: st1_def lineages_ok_upd split: option.splits)
  have ids1: "set ids \<subseteq> dom (taxonomy st1)" unfolding t1 using Cons.prems(3) by simp
  from Cons.IH[OF wf1 ok1 ids1, of "d(i \<mapsto> li)"] obtain memo d' where
    r: "get_lineage_loop st1 ids (d(i \<mapsto> li)) = Some (Inr d', st1\<lparr>lineages := memo\<rparr>)"
    and m: "lineages_ok (taxonomy st1) memo"
    and a: "\<forall>j l. j \<in> set ids \<longrightarrow> path (taxonomy st1) j l \<longrightarrow> d' j = Some l"
    and b: "\<forall>j. j \<notin> set ids \<longrightarrow> d' j = (d(i \<mapsto> li)) j"
    by blast
  have s: "st1\<lparr>lineages := memo\<rparr> = st\<lparr>lineages := memo\<rparr>"
    by (simp add: st1_def split: option.splits)
  have a': "\<forall>j l. j \<in> set (i # ids) \<longrightarrow> path (taxonomy st) j l \<longrightarrow> d' j = Some l"
  proof (intro allI impI)
    fix j l assume j: "j \<in> set (i # ids)" and pj: "path (taxonomy st) j l"
    show "d' j = Some l"
    proof (cases "j \<in> set ids")
      case True
      with a pj show ?thesis unfolding t1 by blast
    next
      case False
      with j have ji: "j = i" by simp
      with b False have "d' j = Some li" by simp
      with path_unique[OF pj[unfolded ji] li] show ?thesis by simp
    qed
  qed
  have b': "\<forall>j. j \<notin> set (i # ids) \<longrightarrow> d' j = d j" using b by simp
  from r m a' b' show ?case unfolding step s t1 by blast
qed

lemma then_do_simps [simp]:
  "then_do None f = None"
  "then_do (Some (Inl e, st)) f = Some (Inl e, st)"
  "then_do (Some (Inr v, st)) f = f v st"
  "then_do (lift st (Inl e)) f = Some (Inl e, st)"
  "then_do (lift st (Inr v)) f = f v st"
  by (simp_all add: then_do_def lift_def)

lemma unchanged_refl [simp]: "unchanged st st"
  by (simp add: unchanged_def)

lemma unchanged_caches [simp]:
  "unchanged st (st\<lparr>lineages := a\<rparr>)"
  "unchanged st (st\<lparr>lca_mappings := b\<rparr>)"
  "unchanged st (st\<lparr>distances := c\<rparr>)"
  by (simp_all add: unchanged_def)

lemma unchanged_trans: "unchanged st st1 \<Longrightarrow> unchanged st1 st2 \<Longrightarrow> unchanged st st2"
  by (simp add: unchanged_def)

lemma unchanged_taxonomy: "unchanged st st' \<Longrightarrow> taxonomy st' = taxonomy st"
  by (simp add: unchanged_def)

lemma unchanged_well_formed: "unchanged st st' \<Longrightarrow> well_formed st \<Longrightarrow> well_formed st'"
  by (simp add: unchanged_def well_formed_def)

lemma caches_ok_lineages:
  "caches_ok st \<Longrightarrow> lineages_ok (taxonomy st) memo \<Longrightarrow> caches_ok (st\<lparr>lineages := memo\<rparr>)"
  by (simp add: caches_ok_def)

lemma get_lineage_loop_unknown:
  assumes "well_formed st" "lineages_ok (taxonomy st) (lineages st)"
    "\<not> set ids \<subseteq> dom (taxonomy st)"
  shows "\<exists>memo k. get_lineage_loop st ids d = Some (Inl (KeyError (IntKey k)), st\<lparr>lineages := memo\<rparr>)
           \<and> lineages_ok (taxonomy st) memo \<and> k \<in> set ids \<and> k \<notin> dom (taxonomy st)"
  using assms
proof (induction ids arbitrary: st d)
  case Nil
  then show ?case by simp
next
  case (Cons i ids)
  note ne = well_formed_nonempty[OF Cons.prems(1)]
  note z = well_formed_nonzero[OF Cons.prems(1)]
  show ?case
  proof (cases "taxonomy st i")
    case None
    have "lineages st i = None"
    proof (cases "lineages st i")
      case (Some l)
      with Cons.prems(2) have "path (taxonomy st) i l" by (simp add: lineages_ok_def)
      from path_key[OF this] None show ?thesis by auto
    qed simp
    then have "get_lineage_loop st (i # ids) d = Some (Inl (KeyError (IntKey i)), st\<lparr>lineages := lineages st\<rparr>)"
      by (simp add: single_get_node[OF ne] None)
    with Cons.prems(2) None show ?thesis by (metis domIff list.set_intros(1))
  next
    case (Some nd)
    from well_formed_path[OF Cons.prems(1) Some] obtain li where li: "path (taxonomy st) i li" by blast
    define st1 where "st1 = (case lineages st i of Some l \<Rightarrow> st | None \<Rightarrow> st\<lparr>lineages := (lineages st)(i \<mapsto> li)\<rparr>)"
    have step: "get_lineage_loop st (i # ids) d = get_lineage_loop st1 ids (d(i \<mapsto> li))"
    proof (cases "lineages st i")
      case None
      then show ?thesis
        by (simp add: st1_def single_get_node[OF ne] Some lineage_loop_rev[OF ne z li Some])
    next
      case (Some l)
      with Cons.prems(2) have "path (taxonomy st) i l" by (simp add: lineages_ok_def)
      from path_unique[OF this li] Some show ?thesis by (simp add: st1_def)
    qed
    have t1: "taxonomy st1 = taxonomy st" by (simp add: st1_def split: option.splits)
    have wf1: "well_formed st1" using Cons.prems(1) well_formed_cong[OF t1] by simp
    have ok1: "lineages_ok (taxonomy st1) (lineages st1)"
      unfolding t1 using Cons.prems(2) li by (auto simp: st1_def lineages_ok_upd split: option.splits)
    have ids1: "\<not> set ids \<subseteq> dom (taxonomy st1)" unfolding t1 using Cons.prems(3) Some by auto
    from Cons.IH[OF wf1 ok1 ids1, of "d(i \<mapsto> li)"] obtain memo k where
      r: "get_lineage_loop st1 ids (d(i \<mapsto> li)) = Some (Inl (KeyError (IntKey k)), st1\<lparr>lineages := memo\<rparr>)"
      and m: "lineages_ok (taxonomy st1) memo" and k: "k \<in> set ids" "k \<notin> dom (taxonomy st1)"
      by blast
    have s: "st1\<lparr>lineages := memo\<rparr> = st\<lparr>lineages := memo\<rparr>"
      by (simp add: st1_def split: option.splits)
    from r m k show ?thesis unfolding step s t1 by auto
  qed
qed

lemma longest_common_prefix_commute:
  "longest_common_prefix xs ys = longest_common_prefix ys xs"
  by (induction xs ys rule: longest_common_prefix.induct) auto

lemma lca_of_paths_commute: "lca_of_paths la lb = lca_of_paths lb la"
  by (simp add: lca_of_paths_def longest_common_prefix_commute)

lemma distance_of_paths_commute: "distance_of_paths la lb = distance_of_paths lb la"
  by (simp add: distance_of_paths_def longest_common_prefix_commute)

lemma cached_ensure_key [simp]: "cached (ensure_key memo k) s g = cached memo s g"
  by (auto simp: cached_def ensure_key_def split: option.splits)

lemma store_ensure_key:
  "\<exists>memo'. store (ensure_key memo k) k g v = Inr memo'
       \<and> (\<forall>s' g'. cached memo' s' g' = (if s' = k \<and> g' = g then Some v else cached memo s' g'))"
  by (auto simp: store_def ensure_key_def cached_def split: option.splits)

lemma index_of_nth:
  "distinct xs \<Longrightarrow> i < length xs \<Longrightarrow> index_of xs (xs ! i) = Inr (int i)"
proof (induction xs arbitrary: i)
  case Nil
  then show ?case by simp
next
  case (Cons x xs)
  show ?case
  proof (cases i)
    case 0
    then show ?thesis by simp
  next
    case (Suc j)
    with Cons.prems have "xs ! j \<noteq> x" "distinct xs" "j < length xs" by auto
    with Cons.IH[of j] Suc show ?thesis by simp
  qed
qed

lemma index_of_last_prefix:
  assumes "distinct xs" "prefix ys xs" "ys \<noteq> []"
  shows "index_of xs (last ys) = Inr (int (length ys) - 1)"
proof -
  from assms obtain zs where xs: "xs = ys @ zs" by (auto simp: prefix_def)
  have i: "length ys - 1 < length xs" using assms(3) unfolding xs by (cases ys) auto
  have "xs ! (length ys - 1) = last ys" unfolding xs
    using assms(3) by (simp add: nth_append last_conv_nth)
  with index_of_nth[OF assms(1) i] have "index_of xs (last ys) = Inr (int (length ys - 1))" by simp
  moreover have "int (length ys - 1) = int (length ys) - 1" using assms(3) by (cases ys) auto
  ultimately show ?thesis by simp
qed

lemma min_max_cases:
  "(min a b = a \<and> max a b = b) \<or> (min a b = b \<and> max a b = a)" for a b :: int
  by (auto simp: min_def max_def)

lemma get_lineage_pair:
  assumes "well_formed st" "lineages_ok (taxonomy st) (lineages st)"
    "path (taxonomy st) a la" "path (taxonomy st) b lb"
  shows "\<exists>memo d'. get_lineage st [a, b] = Some (Inr d', st\<lparr>lineages := memo\<rparr>)
           \<and> lineages_ok (taxonomy st) memo \<and> d' a = Some la \<and> d' b = Some lb"
proof -
  have "set [a, b] \<subseteq> dom (taxonomy st)" using path_key[OF assms(3)] path_key[OF assms(4)] by simp
  from get_lineage_loop_ok[OF assms(1,2) this, of Map.empty] obtain memo d' where
    "get_lineage_loop st [a, b] Map.empty = Some (Inr d', st\<lparr>lineages := memo\<rparr>)"
    "lineages_ok (taxonomy st) memo"
    "\<forall>i l. i \<in> set [a, b] \<longrightarrow> path (taxonomy st) i l \<longrightarrow> d' i = Some l" by blast
  with assms(3,4) show ?thesis unfolding get_lineage_def by auto
qed

lemma get_lineage_single:
  assumes "well_formed st" "lineages_ok (taxonomy st) (lineages st)"
    "path (taxonomy st) a la"
  shows "\<exists>memo. get_lineage st [a] = Some (Inr [a \<mapsto> la], st\<lparr>lineages := memo\<rparr>)
           \<and> lineages_ok (taxonomy st) memo"
proof -
  have "set [a] \<subseteq> dom (taxonomy st)" using path_key[OF assms(3)] by simp
  from get_lineage_loop_ok[OF assms(1,2) this, of Map.empty] obtain memo d' where
    r: "get_lineage_loop st [a] Map.empty = Some (Inr d', st\<lparr>lineages := memo\<rparr>)"
    and m: "lineages_ok (taxonomy st) memo"
    and a: "\<forall>i l. i \<in> set [a] \<longrightarrow> path (taxonomy st) i l \<longrightarrow> d' i = Some l"
    and b: "\<forall>i. i \<notin> set [a] \<longrightarrow> d' i = Map.empty i" by blast
  have "d' = [a \<mapsto> la]"
  proof
    fix i show "d' i = [a \<mapsto> la] i" using a b assms(3) by (cases "i = a") auto
  qed
  with r m show ?thesis unfolding get_lineage_def by auto
qed

lemma lcas_ok_pair:
  assumes "lcas_ok tax memo" "cached memo (min a b) (max a b) = Some v"
    "path tax a la" "path tax b lb"
  shows "v = lca_of_paths la lb"
proof -
  from assms(1,2) obtain ls lg where
    p: "path tax (min a b) ls" "path tax (max a b) lg" and v: "v = lca_of_paths ls lg"
    unfolding lcas_ok_def by blast
  from min_max_cases[of a b] show ?thesis
  proof
    assume "min a b = a \<and> max a b = b"
    with p path_unique[OF _ assms(3)] path_unique[OF _ assms(4)] v show ?thesis by auto
  next
    assume "min a b = b \<and> max a b = a"
    with p path_unique[OF _ assms(3)] path_unique[OF _ assms(4)] v lca_of_paths_commute
    show ?thesis by auto
  qed
qed

lemma pair_paths:
  assumes "path tax a la" "path tax b lb"
  shows "\<exists>ls lg. path tax (min a b) ls \<and> path tax (max a b) lg
          \<and> lca_of_paths la lb = lca_of_paths ls lg
          \<and> distance_of_paths la lb = distance_of_paths ls lg"
  using min_max_cases[of a b]
proof
  assume "min a b = a \<and> max a b = b"
  with assms show ?thesis by auto
next
  assume "min a b = b \<and> max a b = a"
  with assms lca_of_paths_commute[of la lb] distance_of_paths_commute[of la lb]
  show ?thesis by auto
qed

lemma get_lca_ok:
  assumes wf: "well_formed st" and c: "caches_ok st"
    and pa: "path (taxonomy st) a la" and pb: "path (taxonomy st) b lb"
  shows "\<exists>st'. get_lca st a b = Some (Inr (lca_of_paths la lb), st')
           \<and> unchanged st st' \<and> caches_ok st' \<and> distances st' = distances st"
proof -
  define s where "s = min a b"
  define g where "g = max a b"
  define st0 where "st0 = st\<lparr>lca_mappings := ensure_key (lca_mappings st) s\<rparr>"
  have t0: "taxonomy st0 = taxonomy st" by (simp add: st0_def)
  have c0: "caches_ok st0" using c by (simp add: caches_ok_def st0_def lcas_ok_def)
  have wf0: "well_formed st0" using wf well_formed_cong[OF t0] by simp
  show ?thesis
  proof (cases "cached (lca_mappings st) s g")
    case (Some v)
    from c have "lcas_ok (taxonomy st) (lca_mappings st)" by (simp add: caches_ok_def)
    from lcas_ok_pair[OF this Some[unfolded s_def g_def] pa pb] have v: "v = lca_of_paths la lb" .
    have "get_lca st a b = Some (Inr v, st0)"
      unfolding get_lca_def Let_def s_def[symmetric] g_def[symmetric] st0_def[symmetric]
      by (simp add: Some)
    moreover have "unchanged st st0" "distances st0 = distances st" by (simp_all add: st0_def)
    ultimately show ?thesis using v c0 by blast
  next
    case None
    from c0 have l0: "lineages_ok (taxonomy st0) (lineages st0)" by (simp add: caches_ok_def)
    from get_lineage_pair[OF wf0 l0 pa[folded t0] pb[folded t0]] obtain memo d' where
      r: "get_lineage st0 [a, b] = Some (Inr d', st0\<lparr>lineages := memo\<rparr>)"
      and m: "lineages_ok (taxonomy st0) memo" and da: "d' a = Some la" and db: "d' b = Some lb"
      by blast
    from store_ensure_key[of "lca_mappings st" s g "lca_of_paths la lb"] obtain memo' where
      w: "store (ensure_key (lca_mappings st) s) s g (lca_of_paths la lb) = Inr memo'"
      and w': "\<forall>s' g'. cached memo' s' g' =
                 (if s' = s \<and> g' = g then Some (lca_of_paths la lb) else cached (lca_mappings st) s' g')"
      by blast
    define st' where "st' = st0\<lparr>lineages := memo, lca_mappings := memo'\<rparr>"
    have lm: "lca_mappings (st0\<lparr>lineages := memo\<rparr>) = ensure_key (lca_mappings st) s"
      by (simp add: st0_def)
    have "get_lca st a b = Some (Inr (lca_of_paths la lb), st')"
      unfolding get_lca_def Let_def s_def[symmetric] g_def[symmetric] st0_def[symmetric]
      by (simp add: None r subscript_def da db paths_item_lca[OF pa pb] lm w st'_def)
    moreover have "unchanged st st'" "distances st' = distances st"
      by (simp_all add: st'_def st0_def unchanged_def)
    moreover have "caches_ok st'"
    proof -
      from pair_paths[OF pa pb] obtain ls lg where
        q: "path (taxonomy st) s ls" "path (taxonomy st) g lg" "lca_of_paths la lb = lca_of_paths ls lg"
        unfolding s_def g_def by blast
      have "lcas_ok (taxonomy st) memo'"
        unfolding lcas_ok_def
      proof (intro allI impI)
        fix s' g' v assume h: "cached memo' s' g' = Some v"
        show "\<exists>ls lg. path (taxonomy st) s' ls \<and> path (taxonomy st) g' lg \<and> v = lca_of_paths ls lg"
        proof (cases "s' = s \<and> g' = g")
          case True
          with h w' q show ?thesis by auto
        next
          case False
          with h w' have "cached (lca_mappings st) s' g' = Some v" by auto
          with c show ?thesis by (simp add: caches_ok_def lcas_ok_def)
        qed
      qed
      with c m show ?thesis by (simp add: caches_ok_def st'_def st0_def)
    qed
    ultimately show ?thesis by blast
  qed
qed

lemma one_way_distance_ok:
  assumes wf: "well_formed st" and c: "caches_ok st"
    and p: "path (taxonomy st) t l" and ys: "prefix ys l" "ys \<noteq> []"
  shows "\<exists>st'. one_way_distance st (last ys) t = Some (Inr (int (length l) - int (length ys)), st')
           \<and> unchanged st st' \<and> caches_ok st'
           \<and> distances st' = distances st \<and> lca_mappings st' = lca_mappings st"
proof -
  from c have l0: "lineages_ok (taxonomy st) (lineages st)" by (simp add: caches_ok_def)
  from get_lineage_single[OF wf l0 p] obtain memo where
    r: "get_lineage st [t] = Some (Inr [t \<mapsto> l], st\<lparr>lineages := memo\<rparr>)"
    and m: "lineages_ok (taxonomy st) memo" by blast
  note d = path_distinct[OF p]
  have i1: "index_of l (last ys) = Inr (int (length ys) - 1)"
    by (rule index_of_last_prefix[OF d ys])
  have "index_of l (last l) = Inr (int (length l) - 1)"
    by (rule index_of_last_prefix[OF d _ path_nonempty[OF p]]) simp
  then have i2: "index_of l t = Inr (int (length l) - 1)" using path_last[OF p] by simp
  have "one_way_distance st (last ys) t = Some (Inr (int (length l) - int (length ys)), st\<lparr>lineages := memo\<rparr>)"
    unfolding one_way_distance_def by (simp add: r i1 i2)
  moreover have "caches_ok (st\<lparr>lineages := memo\<rparr>)" by (rule caches_ok_lineages[OF c m])
  ultimately show ?thesis by auto
qed

lemma distances_ok_pair:
  assumes "distances_ok tax memo" "cached memo (min a b) (max a b) = Some v"
    "path tax a la" "path tax b lb"
  shows "v = distance_of_paths la lb"
proof -
  from assms(1,2) obtain ls lg where
    p: "path tax (min a b) ls" "path tax (max a b) lg" and v: "v = distance_of_paths ls lg"
    unfolding distances_ok_def by blast
  from min_max_cases[of a b] show ?thesis
  proof
    assume "min a b = a \<and> max a b = b"
    with p path_unique[OF _ assms(3)] path_unique[OF _ assms(4)] v show ?thesis by auto
  next
    assume "min a b = b \<and> max a b = a"
    with p path_unique[OF _ assms(3)] path_unique[OF _ assms(4)] v distance_of_paths_commute
    show ?thesis by auto
  qed
qed

lemma get_distance_ok:
  assumes wf: "well_formed st" and c: "caches_ok st"
    and pa: "path (taxonomy st) a la" and pb: "path (taxonomy st) b lb"
  shows "\<exists>st'. get_distance st a b = Some (Inr (distance_of_paths la lb), st')
           \<and> unchanged st st' \<and> caches_ok st'"
proof -
  define s where "s = min a b"
  define g where "g = max a b"
  define st0 where "st0 = st\<lparr>distances := ensure_key (distances st) s\<rparr>"
  have t0: "taxonomy st0 = taxonomy st" by (simp add: st0_def)
  have c0: "caches_ok st0" using c by (simp add: caches_ok_def st0_def distances_ok_def)
  have wf0: "well_formed st0" using wf well_formed_cong[OF t0] by simp
  show ?thesis
  proof (cases "cached (distances st) s g")
    case (Some v)
    from c have "distances_ok (taxonomy st) (distances st)" by (simp add: caches_ok_def)
    from distances_ok_pair[OF this Some[unfolded s_def g_def] pa pb] have v: "v = distance_of_paths la lb" .
    have "get_distance st a b = Some (Inr v, st0)"
      unfolding get_distance_def Let_def s_def[symmetric] g_def[symmetric] st0_def[symmetric]
      by (simp add: Some)
    moreover have "unchanged st st0" by (simp add: st0_def)
    ultimately show ?thesis using v c0 by blast
  next
    case None
    define k where "k = longest_common_prefix la lb"
    have k: "prefix k la" "prefix k lb" "k \<noteq> []" "lca_of_paths la lb = last k"
      unfolding k_def using paths_lcp_nonempty[OF pa pb]
      by (simp_all add: longest_common_prefix_prefix1 longest_common_prefix_prefix2 lca_of_paths_def)
    from get_lca_ok[OF wf0 c0 pa[folded t0] pb[folded t0]] obtain st1 where
      r1: "get_lca st0 a b = Some (Inr (last k), st1)" and u1: "unchanged st0 st1"
      and c1: "caches_ok st1" and d1: "distances st1 = distances st0"
      unfolding k(4) by blast
    have t1: "taxonomy st1 = taxonomy st" using unchanged_taxonomy[OF u1] t0 by simp
    have wf1: "well_formed st1" using wf well_formed_cong[OF t1] by simp
    from one_way_distance_ok[OF wf1 c1 pa[folded t1] k(1) k(3)] obtain st2 where
      r2: "one_way_distance st1 (last k) a = Some (Inr (int (length la) - int (length k)), st2)"
      and u2: "unchanged st1 st2" and c2: "caches_ok st2"
      and d2: "distances st2 = distances st0" unfolding d1 by blast
    have t2: "taxonomy st2 = taxonomy st" using unchanged_taxonomy[OF u2] t1 by simp
    have wf2: "well_formed st2" using wf well_formed_cong[OF t2] by simp
    from one_way_distance_ok[OF wf2 c2 pb[folded t2] k(2) k(3)] obtain st3 where
      r3: "one_way_distance st2 (last k) b = Some (Inr (int (length lb) - int (length k)), st3)"
      and u3: "unchanged st2 st3" and c3: "caches_ok st3"
      and d3: "distances st3 = distances st0" unfolding d2 by blast
    have t3: "taxonomy st3 = taxonomy st" using unchanged_taxonomy[OF u3] t2 by simp
    have u03: "unchanged st st3"
      using unchanged_trans[OF unchanged_trans[OF unchanged_trans[OF _ u1] u2] u3, of st]
      by (simp add: st0_def)
    have dv: "int (length la) - int (length k) + (int (length lb) - int (length k)) = distance_of_paths la lb"
      by (simp add: distance_of_paths_def k_def)
    from store_ensure_key[of "distances st" s g "distance_of_paths la lb"] obtain memo' where
      w: "store (ensure_key (distances st) s) s g (distance_of_paths la lb) = Inr memo'"
      and w': "\<forall>s' g'. cached memo' s' g' =
                 (if s' = s \<and> g' = g then Some (distance_of_paths la lb) else cached (distances st) s' g')"
      by blast
    have d3': "distances st3 = ensure_key (distances st) s" unfolding d3 by (simp add: st0_def)
    define st' where "st' = st3\<lparr>distances := memo'\<rparr>"
    have "get_distance st a b = Some (Inr (distance_of_paths la lb), st')"
      unfolding get_distance_def Let_def s_def[symmetric] g_def[symmetric] st0_def[symmetric]
      by (simp add: None r1 r2 r3 dv d3' w st'_def)
    moreover have "unchanged st st'" using u03 by (simp add: st'_def unchanged_def)
    moreover have "caches_ok st'"
    proof -
      from pair_paths[OF pa pb] obtain ls lg where
        q: "path (taxonomy st) s ls" "path (taxonomy st) g lg"
           "distance_of_paths la lb = distance_of_paths ls lg"
        unfolding s_def g_def by blast
      have "distances_ok (taxonomy st) memo'"
        unfolding distances_ok_def
      proof (intro allI impI)
        fix s' g' v assume h: "cached memo' s' g' = Some v"
        show "\<exists>ls lg. path (taxonomy st) s' ls \<and> path (taxonomy st) g' lg \<and> v = distance_of_paths ls lg"
        proof (cases "s' = s \<and> g' = g")
          case True
          with h w' q show ?thesis by auto
        next
          case False
          with h w' have "cached (distances st) s' g' = Some v" by auto
          with c show ?thesis by (simp add: caches_ok_def distances_ok_def)
        qed
      qed
      with c3 show ?thesis by (simp add: caches_ok_def st'_def t3)
    qed
    ultimately show ?thesis by blast
  qed
qed

lemma get_lca_unknown:
  assumes wf: "well_formed st" and c: "caches_ok st"
    and u: "a \<notin> dom (taxonomy st) \<or> b \<notin> dom (taxonomy st)"
  shows "\<exists>k st'. get_lca st a b = Some (Inl (KeyError (IntKey k)), st')
           \<and> k \<in> {a, b} \<and> k \<notin> dom (taxonomy st)
           \<and> unchanged st st' \<and> caches_ok st' \<and> distances st' = distances st"
proof -
  define s where "s = min a b"
  define g where "g = max a b"
  define st0 where "st0 = st\<lparr>lca_mappings := ensure_key (lca_mappings st) s\<rparr>"
  have t0: "taxonomy st0 = taxonomy st" by (simp add: st0_def)
  have c0: "caches_ok st0" using c by (simp add: caches_ok_def st0_def lcas_ok_def)
  have wf0: "well_formed st0" using wf well_formed_cong[OF t0] by simp
  have None: "cached (lca_mappings st) s g = None"
  proof (cases "cached (lca_mappings st) s g")
    case (Some v)
    with c obtain ls lg where "path (taxonomy st) s ls" "path (taxonomy st) g lg"
      unfolding caches_ok_def lcas_ok_def by blast
    from path_key[OF this(1)] path_key[OF this(2)] have "a \<in> dom (taxonomy st) \<and> b \<in> dom (taxonomy st)"
      using min_max_cases[of a b] unfolding s_def g_def by auto
    with u show ?thesis by simp
  qed simp
  from c0 have l0: "lineages_ok (taxonomy st0) (lineages st0)" by (simp add: caches_ok_def)
  have "\<not> set [a, b] \<subseteq> dom (taxonomy st0)" unfolding t0 using u by auto
  from get_lineage_loop_unknown[OF wf0 l0 this, of Map.empty] obtain memo k where
    r: "get_lineage st0 [a, b] = Some (Inl (KeyError (IntKey k)), st0\<lparr>lineages := memo\<rparr>)"
    and m: "lineages_ok (taxonomy st0) memo" and k: "k \<in> set [a, b]" "k \<notin> dom (taxonomy st0)"
    unfolding get_lineage_def by blast
  have "get_lca st a b = Some (Inl (KeyError (IntKey k)), st0\<lparr>lineages := memo\<rparr>)"
    unfolding get_lca_def Let_def s_def[symmetric] g_def[symmetric] st0_def[symmetric]
    by (simp add: None r)
  moreover have "caches_ok (st0\<lparr>lineages := memo\<rparr>)" by (rule caches_ok_lineages[OF c0 m])
  moreover have "unchanged st (st0\<lparr>lineages := memo\<rparr>)"
    "distances (st0\<lparr>lineages := memo\<rparr>) = distances st" by (simp_all add: st0_def unchanged_def)
  ultimately show ?thesis using k unfolding t0 by auto
qed

lemma get_distance_unknown:
  assumes wf: "well_formed st" and c: "caches_ok st"
    and u: "a \<notin> dom (taxonomy st) \<or> b \<notin> dom (taxonomy st)"
  shows "\<exists>k st'. get_distance st a b = Some (Inl (KeyError (IntKey k)), st')
           \<and> k \<in> {a, b} \<and> k \<notin> dom (taxonomy st)
           \<and> unchanged st st' \<and> caches_ok st'"
proof -
  define s where "s = min a b"
  define g where "g = max a b"
  define st0 where "st0 = st\<lparr>distances := ensure_key (distances st) s\<rparr>"
  have t0: "taxonomy st0 = taxonomy st" by (simp add: st0_def)
  have c0: "caches_ok st0" using c by (simp add: caches_ok_def st0_def distances_ok_def)
  have wf0: "well_formed st0" using wf well_formed_cong[OF t0] by simp
  have None: "cached (distances st) s g = None"
  proof (cases "cached (distances st) s g")
    case (Some v)
    with c obtain ls lg where "path (taxonomy st) s ls" "path (taxonomy st) g lg"
      unfolding caches_ok_def distances_ok_def by blast
    from path_key[OF this(1)] path_key[OF this(2)] have "a \<in> dom (taxonomy st) \<and> b \<in> dom (taxonomy st)"
      using min_max_cases[of a b] unfolding s_def g_def by auto
    with u show ?thesis by simp
  qed simp
  from get_lca_unknown[OF wf0 c0 u[folded t0]] obtain k st' where
    r: "get_lca st0 a b = Some (Inl (KeyError (IntKey k)), st')"
    and k: "k \<in> {a, b}" "k \<notin> dom (taxonomy st)" and t: "unchanged st0 st'"
    and c': "caches_ok st'" unfolding t0 by blast
  have t': "unchanged st st'" using unchanged_trans[OF _ t, of st] by (simp add: st0_def)
  have "get_distance st a b = Some (Inl (KeyError (IntKey k)), st')"
    unfolding get_distance_def Let_def s_def[symmetric] g_def[symmetric] st0_def[symmetric]
    by (simp add: None r)
  with k t' c' show ?thesis by blast
qed

lemma path_root_exists: "path tax n l \<Longrightarrow> path tax 1 [1]"
  by (induction rule: path.induct) (auto intro: path.path_root)

lemma path_chain:
  "path (taxonomy st) n l \<Longrightarrow> Suc i < length l \<Longrightarrow> parent_of st (l ! Suc i) = Some (l ! i)"
proof (induction arbitrary: i rule: path.induct)
  case (path_root nd)
  then show ?case by simp
next
  case (path_step n nd p l)
  show ?case
  proof (cases "Suc i < length l")
    case True
    with path_step.IH[OF True] show ?thesis by (simp add: nth_append)
  next
    case False
    with path_step.prems have i: "Suc i = length l" by simp
    then have "l ! i = last l" using path_nonempty[OF path_step.hyps(3)]
      by (metis diff_Suc_1 last_conv_nth)
    with path_last[OF path_step.hyps(3)] have "l ! i = p" by simp
    moreover have "(l @ [n]) ! Suc i = n" using i by (simp add: nth_append)
    moreover have "(l @ [n]) ! i = l ! i" using i by (simp add: nth_append)
    ultimately show ?thesis using path_step.hyps(1,2) by (simp add: parent_of_def)
  qed
qed

lemma wf_path:
  assumes "well_formed st" "n \<in> dom (taxonomy st)"
  obtains l where "path (taxonomy st) n l"
  using assms by (auto simp: well_formed_def)

text \<open>
  Claim C6. On a built tree, \<open>get_lineage([n])[n]\<close> is a sequence that begins with the
  root, ends with \<open>n\<close> and in which every element is the parent of the next one; the
  lineage of the root is the one-element list of the root.
\<close>

theorem lineage_root_first:
  assumes "well_formed st" "caches_ok st" "n \<in> dom (taxonomy st)"
  shows "(\<exists>l st'. get_lineage st [n] = Some (Inr [n \<mapsto> l], st') \<and> l \<noteq> [] \<and> hd l = 1 \<and> last l = n
            \<and> (\<forall>i. Suc i < length l \<longrightarrow> parent_of st (l ! Suc i) = Some (l ! i)))
         \<and> (\<exists>st'. get_lineage st [1] = Some (Inr [1 \<mapsto> [1]], st'))"
proof -
  from assms(2) have l0: "lineages_ok (taxonomy st) (lineages st)" by (simp add: caches_ok_def)
  from wf_path[OF assms(1,3)] obtain l where p: "path (taxonomy st) n l" .
  from get_lineage_single[OF assms(1) l0 p] obtain memo where
    "get_lineage st [n] = Some (Inr [n \<mapsto> l], st\<lparr>lineages := memo\<rparr>)" by blast
  with path_nonempty[OF p] path_hd[OF p] path_last[OF p] path_chain[OF p]
  have a: "\<exists>l st'. get_lineage st [n] = Some (Inr [n \<mapsto> l], st') \<and> l \<noteq> [] \<and> hd l = 1 \<and> last l = n
            \<and> (\<forall>i. Suc i < length l \<longrightarrow> parent_of st (l ! Suc i) = Some (l ! i))"
    by blast
  from get_lineage_single[OF assms(1) l0 path_root_exists[OF p]]
  have b: "\<exists>st'. get_lineage st [1] = Some (Inr [1 \<mapsto> [1]], st')" by blast
  from a b show ?thesis by blast
qed

lemma lcp_self: "longest_common_prefix l l = l"
  by (induction l) auto

text \<open>
  Claim C8. On a built tree the distance of an identifier to itself is 0 and its lowest
  common ancestor with itself is the identifier.
\<close>

theorem self_distance_and_lca:
  assumes "well_formed st" "caches_ok st" "a \<in> dom (taxonomy st)"
  shows "(\<exists>st'. get_distance st a a = Some (Inr 0, st')) \<and> (\<exists>st'. get_lca st a a = Some (Inr a, st'))"
proof -
  from wf_path[OF assms(1,3)] obtain l where p: "path (taxonomy st) a l" .
  have d0: "distance_of_paths l l = 0" by (simp add: distance_of_paths_def lcp_self)
  from get_distance_ok[OF assms(1,2) p p] obtain s1 where
    "get_distance st a a = Some (Inr (distance_of_paths l l), s1)" by blast
  then have a: "\<exists>st'. get_distance st a a = Some (Inr 0, st')" unfolding d0 by (rule exI)
  have l0: "lca_of_paths l l = a" using path_last[OF p] by (simp add: lca_of_paths_def lcp_self)
  from get_lca_ok[OF assms(1,2) p p] obtain s2 where
    "get_lca st a a = Some (Inr (lca_of_paths l l), s2)" by blast
  then have b: "\<exists>st'. get_lca st a a = Some (Inr a, st')" unfolding l0 by (rule exI)
  from a b show ?thesis ..
qed

lemma deeper_not_common:
  assumes "distinct la" "set la \<inter> set lb = set k" "prefix k la" "j < length la" "la ! j \<in> set lb"
  shows "j < length k"
proof (rule ccontr)
  assume n: "\<not> j < length k"
  from assms(3) obtain r where la: "la = k @ r" unfolding prefix_def by blast
  have "la ! j \<in> set la" using assms(4) by (rule nth_mem)
  with assms(5) have "la ! j \<in> set la \<inter> set lb" by simp
  then have "la ! j \<in> set k" unfolding assms(2) .
  then obtain i where i: "i < length k" "k ! i = la ! j" unfolding in_set_conv_nth by blast
  have "la ! i = k ! i" unfolding la using i(1) by (simp add: nth_append)
  with i(2) have e: "la ! i = la ! j" by simp
  have il: "i < length la" using i(1) unfolding la by simp
  from assms(1) il assms(4) e have "i = j" by (simp only: nth_eq_iff_index_eq)
  with i(1) n show False by simp
qed

text \<open>
  Claim C1. On a built tree, for identifiers \<open>a\<close> and \<open>b\<close> with lineages \<open>la\<close> and \<open>lb\<close>
  and \<open>k\<close> the size of the intersection of the two lineages as sets, \<open>get_lca(a, b)\<close>
  returns the element of \<open>la\<close> at index \<open>k - 1\<close>; this node is in both lineages, and no
  node further down either lineage is in the other one.
\<close>

theorem lca_deepest_common:
  assumes "well_formed st" "caches_ok st" "a \<in> dom (taxonomy st)" "b \<in> dom (taxonomy st)"
  shows "\<exists>la lb sa sb st'.
           get_lineage st [a] = Some (Inr [a \<mapsto> la], sa)
         \<and> get_lineage st [b] = Some (Inr [b \<mapsto> lb], sb)
         \<and> 0 < card (set la \<inter> set lb) \<and> card (set la \<inter> set lb) \<le> length la
         \<and> get_lca st a b = Some (Inr (la ! (card (set la \<inter> set lb) - 1)), st')
         \<and> la ! (card (set la \<inter> set lb) - 1) \<in> set la \<inter> set lb
         \<and> (\<forall>j. j < length la \<and> la ! j \<in> set lb \<longrightarrow> j < card (set la \<inter> set lb))
         \<and> (\<forall>j. j < length lb \<and> lb ! j \<in> set la \<longrightarrow> j < card (set la \<inter> set lb))"
proof -
  from assms(2) have l0: "lineages_ok (taxonomy st) (lineages st)" by (simp add: caches_ok_def)
  from wf_path[OF assms(1,3)] obtain la where pa: "path (taxonomy st) a la" .
  from wf_path[OF assms(1,4)] obtain lb where pb: "path (taxonomy st) b lb" .
  define k where "k = longest_common_prefix la lb"
  have k: "prefix k la" "prefix k lb" "k \<noteq> []"
    unfolding k_def using paths_lcp_nonempty[OF pa pb]
    by (simp_all add: longest_common_prefix_prefix1 longest_common_prefix_prefix2)
  have s: "set la \<inter> set lb = set k" unfolding k_def by (rule paths_common[OF pa pb])
  have s': "set lb \<inter> set la = set k" using s by auto
  have c: "card (set la \<inter> set lb) = length k" unfolding k_def by (rule paths_card_common[OF pa pb])
  from get_lineage_single[OF assms(1) l0 pa] obtain sa where
    ra: "get_lineage st [a] = Some (Inr [a \<mapsto> la], sa)" by blast
  from get_lineage_single[OF assms(1) l0 pb] obtain sb where
    rb: "get_lineage st [b] = Some (Inr [b \<mapsto> lb], sb)" by blast
  from k(1) obtain r where la: "la = k @ r" by (auto simp: prefix_def)
  have lk: "la ! (length k - 1) = last k" unfolding la using k(3)
    by (simp add: nth_append last_conv_nth)
  from get_lca_ok[OF assms(1,2) pa pb] obtain st' where
    rl: "get_lca st a b = Some (Inr (la ! (length k - 1)), st')"
    unfolding lca_of_paths_def k_def[symmetric] lk by blast
  have 1: "0 < length k" "length k \<le> length la" using k(3) la by auto
  have 2: "la ! (length k - 1) \<in> set la \<inter> set lb" unfolding s lk using k(3) by simp
  have 3: "\<forall>j. j < length la \<and> la ! j \<in> set lb \<longrightarrow> j < length k"
    using deeper_not_common[OF path_distinct[OF pa] s k(1)] by blast
  have 4: "\<forall>j. j < length lb \<and> lb ! j \<in> set la \<longrightarrow> j < length k"
    using deeper_not_common[OF path_distinct[OF pb] s' k(2)] by blast
  note f = ra rb 1[folded c] rl[folded c] 2[folded c] 3[folded c] 4[folded c]
  show ?thesis
    apply (rule exI[of _ la], rule exI[of _ lb], rule exI[of _ sa], rule exI[of _ sb], rule exI[of _ st'])
    apply (intro conjI)
    apply (rule f)+
    done
qed

lemma answers_ok:
  assumes "well_formed st" "caches_ok st"
  shows "answers st"
  unfolding answers_def
proof (intro conjI ballI)
  from assms(2) have l0: "lineages_ok (taxonomy st) (lineages st)" by (simp add: caches_ok_def)
  fix c assume c: "c \<in> dom (taxonomy st)"
  from wf_path[OF assms(1) c] obtain lc where pc: "path (taxonomy st) c lc" .
  from get_lineage_single[OF assms(1) l0 pc]
  show "\<exists>l s. get_lineage st [c] = Some (Inr [c \<mapsto> l], s)" by blast
  fix d assume d: "d \<in> dom (taxonomy st)"
  from wf_path[OF assms(1) d] obtain ld where pd: "path (taxonomy st) d ld" .
  from get_lca_ok[OF assms pc pd] show "\<exists>v s. get_lca st c d = Some (Inr v, s)" by blast
  from get_distance_ok[OF assms pc pd] show "\<exists>v s. get_distance st c d = Some (Inr v, s)" by blast
qed

lemma raises_unknownI:
  assumes "well_formed st" "r = Some (Inl (KeyError (IntKey k)), st')" "k \<notin> dom (taxonomy st)"
    "unchanged st st'" "caches_ok st'"
  shows "raises_unknown st r"
proof -
  have "answers st'" using answers_ok[OF unchanged_well_formed[OF assms(4,1)] assms(5)] .
  moreover have "unknown_taxon st (KeyError (IntKey k))" using assms(3) by (auto simp: unknown_taxon_def)
  ultimately show ?thesis unfolding raises_unknown_def using assms(2,4) by blast
qed

lemma get_lineage_unknown:
  assumes "well_formed st" "caches_ok st" "u \<in> set ids" "u \<notin> dom (taxonomy st)"
  shows "raises_unknown st (get_lineage st ids)"
proof -
  from assms(2) have l0: "lineages_ok (taxonomy st) (lineages st)" by (simp add: caches_ok_def)
  have "\<not> set ids \<subseteq> dom (taxonomy st)" using assms(3,4) by auto
  from get_lineage_loop_unknown[OF assms(1) l0 this, of Map.empty] obtain memo k where
    r: "get_lineage st ids = Some (Inl (KeyError (IntKey k)), st\<lparr>lineages := memo\<rparr>)"
    and m: "lineages_ok (taxonomy st) memo" and k: "k \<notin> dom (taxonomy st)"
    unfolding get_lineage_def by blast
  show ?thesis
    by (rule raises_unknownI[OF assms(1) r k _ caches_ok_lineages[OF assms(2) m]]) simp
qed

text \<open>
  Claim C7. On a built tree, \<open>get_lineage\<close>, \<open>get_lca\<close> and \<open>get_distance\<close> applied to an
  identifier that is no key of the node mapping raise \<open>KeyError\<close> (logged by \<open>get_node\<close> as
  an identifier not found in the tree), whatever the other argument is; the failure
  changes neither the node mapping, nor the rank index, nor the leaf set, and the queries
  on known identifiers return afterwards.
\<close>

theorem unknown_taxon_scoped:
  assumes "well_formed st" "caches_ok st" "u \<notin> dom (taxonomy st)"
  shows "raises_unknown st (get_lineage st [u])
       \<and> raises_unknown st (get_lca st u x) \<and> raises_unknown st (get_lca st x u)
       \<and> raises_unknown st (get_distance st u x) \<and> raises_unknown st (get_distance st x u)"
proof -
  have 1: "raises_unknown st (get_lineage st [u])"
    by (rule get_lineage_unknown[OF assms(1,2) _ assms(3)]) simp
  have lca: "raises_unknown st (get_lca st a b)"
    if "a \<notin> dom (taxonomy st) \<or> b \<notin> dom (taxonomy st)" for a b
  proof -
    from get_lca_unknown[OF assms(1,2) that] obtain k st' where
      "get_lca st a b = Some (Inl (KeyError (IntKey k)), st')" "k \<notin> dom (taxonomy st)"
      "unchanged st st'" "caches_ok st'" by blast
    then show ?thesis by (intro raises_unknownI[OF assms(1)])
  qed
  have dist: "raises_unknown st (get_distance st a b)"
    if "a \<notin> dom (taxonomy st) \<or> b \<notin> dom (taxonomy st)" for a b
  proof -
    from get_distance_unknown[OF assms(1,2) that] obtain k st' where
      "get_distance st a b = Some (Inl (KeyError (IntKey k)), st')" "k \<notin> dom (taxonomy st)"
      "unchanged st st'" "caches_ok st'" by blast
    then show ?thesis by (intro raises_unknownI[OF assms(1)])
  qed
  from 1 lca[of u x] lca[of x u] dist[of u x] dist[of x u] assms(3) show ?thesis by simp
qed

lemma pinus_paths:
  "path (taxonomy pinus_tree) 1 [1]"
  "path (taxonomy pinus_tree) 10 [1, 10]"
  "path (taxonomy pinus_tree) 100 [1, 10, 100]"
  "path (taxonomy pinus_tree) 101 [1, 10, 101]"
proof -
  show 1: "path (taxonomy pinus_tree) 1 [1]"
    by (rule path_root) (simp add: pinus_tree_def, simp)
  have "path (taxonomy pinus_tree) 10 ([1] @ [10])"
    by (rule path_step[OF _ _ 1]) (simp add: pinus_tree_def, simp)
  then show 10: "path (taxonomy pinus_tree) 10 [1, 10]" by simp
  have "path (taxonomy pinus_tree) 100 ([1, 10] @ [100])"
    by (rule path_step[OF _ _ 10]) (simp add: pinus_tree_def, simp)
  then show "path (taxonomy pinus_tree) 100 [1, 10, 100]" by simp
  have "path (taxonomy pinus_tree) 101 ([1, 10] @ [101])"
    by (rule path_step[OF _ _ 10]) (simp add: pinus_tree_def, simp)
  then show "path (taxonomy pinus_tree) 101 [1, 10, 101]" by simp
qed

lemma pinus_dom: "dom (taxonomy pinus_tree) = {1, 10, 100, 101}"
  by (auto simp: pinus_tree_def)

lemma pinus_well_formed: "well_formed pinus_tree"
  unfolding well_formed_def pinus_dom using pinus_paths by auto

lemma empty_caches_ok:
  "lineages st = Map.empty \<Longrightarrow> lca_mappings st = Map.empty \<Longrightarrow> distances st = Map.empty \<Longrightarrow> caches_ok st"
  by (simp add: caches_ok_def lineages_ok_def lcas_ok_def distances_ok_def cached_def)

lemma pinus_caches_ok: "caches_ok pinus_tree"
  by (rule empty_caches_ok) (simp_all add: pinus_tree_def)

theorem lineage_root_first_witness:
  "construct_tree pinus_names pinus_nodes = Inr pinus_tree
   \<and> well_formed pinus_tree \<and> caches_ok pinus_tree \<and> 100 \<in> dom (taxonomy pinus_tree)
   \<and> (\<exists>l st'. get_lineage pinus_tree [100] = Some (Inr [100 \<mapsto> l], st') \<and> l \<noteq> [] \<and> hd l = 1 \<and> last l = 100
         \<and> (\<forall>i. Suc i < length l \<longrightarrow> parent_of pinus_tree (l ! Suc i) = Some (l ! i)))
   \<and> (\<exists>st'. get_lineage pinus_tree [1] = Some (Inr [1 \<mapsto> [1]], st'))"
proof -
  have d: "100 \<in> dom (taxonomy pinus_tree)" by (simp add: pinus_dom)
  from lineage_root_first[OF pinus_well_formed pinus_caches_ok d] pinus_construct pinus_well_formed pinus_caches_ok d
  show ?thesis by (intro conjI) blast+
qed

theorem self_distance_and_lca_witness:
  "construct_tree pinus_names pinus_nodes = Inr pinus_tree
   \<and> well_formed pinus_tree \<and> caches_ok pinus_tree \<and> 101 \<in> dom (taxonomy pinus_tree)
   \<and> (\<exists>st'. get_distance pinus_tree 101 101 = Some (Inr 0, st'))
   \<and> (\<exists>st'. get_lca pinus_tree 101 101 = Some (Inr 101, st'))"
proof -
  have d: "101 \<in> dom (taxonomy pinus_tree)" by (simp add: pinus_dom)
  from self_distance_and_lca[OF pinus_well_formed pinus_caches_ok d] pinus_construct pinus_well_formed pinus_caches_ok d
  show ?thesis by (intro conjI) blast+
qed

theorem lca_deepest_common_witness:
  "construct_tree pinus_names pinus_nodes = Inr pinus_tree
   \<and> well_formed pinus_tree \<and> caches_ok pinus_tree
   \<and> 100 \<in> dom (taxonomy pinus_tree) \<and> 101 \<in> dom (taxonomy pinus_tree)
   \<and> (\<exists>la lb sa sb st'.
           get_lineage pinus_tree [100] = Some (Inr [100 \<mapsto> la], sa)
         \<and> get_lineage pinus_tree [101] = Some (Inr [101 \<mapsto> lb], sb)
         \<and> 0 < card (set la \<inter> set lb) \<and> card (set la \<inter> set lb) \<le> length la
         \<and> get_lca pinus_tree 100 101 = Some (Inr (la ! (card (set la \<inter> set lb) - 1)), st')
         \<and> la ! (card (set la \<inter> set lb) - 1) \<in> set la \<inter> set lb
         \<and> (\<forall>j. j < length la \<and> la ! j \<in> set lb \<longrightarrow> j < card (set la \<inter> set lb))
         \<and> (\<forall>j. j < length lb \<and> lb ! j \<in> set la \<longrightarrow> j < card (set la \<inter> set lb)))"
proof -
  have d: "100 \<in> dom (taxonomy pinus_tree)" "101 \<in> dom (taxonomy pinus_tree)"
    by (simp_all add: pinus_dom)
  from lca_deepest_common[OF pinus_well_formed pinus_caches_ok d] pinus_construct pinus_well_formed pinus_caches_ok d
  show ?thesis by (intro conjI)
qed

theorem unknown_taxon_scoped_witness:
  "construct_tree pinus_names pinus_nodes = Inr pinus_tree
   \<and> well_formed pinus_tree \<and> caches_ok pinus_tree \<and> 7 \<notin> dom (taxonomy pinus_tree)
   \<and> raises_unknown pinus_tree (get_lineage pinus_tree [7])
   \<and> raises_unknown pinus_tree (get_lca pinus_tree 7 100)
   \<and> raises_unknown pinus_tree (get_lca pinus_tree 100 7)
   \<and> raises_unknown pinus_tree (get_distance pinus_tree 7 100)
   \<and> raises_unknown pinus_tree (get_distance pinus_tree 100 7)"
proof -
  have d: "7 \<notin> dom (taxonomy pinus_tree)" by (simp add: pinus_dom)
  from unknown_taxon_scoped[OF pinus_well_formed pinus_caches_ok d, of 100]
    pinus_construct pinus_well_formed pinus_caches_ok d
  show ?thesis by (intro conjI) simp_all
qed

lemma single_get_property_loop:
  "single (\<lambda>ids. get_property_loop st f ids Map.empty) n = get_property st n f"
  by (cases "get_property st n f") (simp_all add: single_def)

lemma single_get_rank: "single (get_rank st) n = get_property st n rank"
  using single_get_property_loop[of st rank n] by (simp add: single_def get_rank_def)

lemma single_get_parent: "single (get_parent st) n = get_property st n parent"
  using single_get_property_loop[of st parent n] by (simp add: single_def get_parent_def)

lemma get_property_key:
  "taxonomy st n = Some nd \<Longrightarrow> get_property st n f = Inr (f nd)"
  by (auto simp: get_property_def)

lemma path_root_parent: "path tax n l \<Longrightarrow> tax 1 = Some nd \<Longrightarrow> parent nd = None"
  by (induction rule: path.induct) auto

lemma rank_code_loop_path:
  "path (taxonomy st) n l \<Longrightarrow> taxonomy st n = Some nd \<Longrightarrow>
     \<exists>code ys. rank_code_loop st (rank nd) n = Some (Inr (code, last ys))
        \<and> prefix ys l \<and> ys \<noteq> []
        \<and> (ys = l \<longrightarrow> code_of_rank (rank nd) = Some code
                      \<or> (n = 1 \<and> code_of_rank (rank nd) = None \<and> code = ''R''))"
proof (induction arbitrary: nd rule: path.induct)
  case (path_root r)
  show ?case
  proof (cases "code_of_rank (rank nd)")
    case None
    then have "rank_code_loop st (rank nd) 1 = Some (Inr (''R'', last [1]))"
      by (subst rank_code_loop.simps) (simp add: code_of_rank_def)
    with None show ?thesis by (intro exI[of _ "''R''"] exI[of _ "[1]"]) simp
  next
    case (Some code)
    then have "rank_code_loop st (rank nd) 1 = Some (Inr (code, last [1]))"
      by (subst rank_code_loop.simps) (simp add: code_of_rank_def)
    with Some show ?thesis by (intro exI[of _ code] exI[of _ "[1]"]) simp
  qed
next
  case (path_step n nd' p l)
  from path_step.hyps path_step.prems have pn: "parent nd = Some p" by simp
  show ?case
  proof (cases "code_of_rank (rank nd)")
    case (Some code)
    then have "rank_code_loop st (rank nd) n = Some (Inr (code, last (l @ [n])))"
      by (subst rank_code_loop.simps) (simp add: code_of_rank_def)
    with Some show ?thesis by (intro exI[of _ code] exI[of _ "l @ [n]"]) simp
  next
    case None
    have n1: "n \<noteq> 1"
    proof
      assume "n = 1"
      with path_root_parent[OF path_step.hyps(3), of nd] path_step.prems pn show False by simp
    qed
    from path_key[OF path_step.hyps(3)] obtain ndp where ndp: "taxonomy st p = Some ndp" by auto
    from path_step.IH[OF ndp] obtain code ys where
      r: "rank_code_loop st (rank ndp) p = Some (Inr (code, last ys))"
      and ys: "prefix ys l" "ys \<noteq> []" by blast
    have "rank_code_loop st (rank nd) n = rank_code_loop st (rank ndp) p"
      using None n1
      by (subst rank_code_loop.simps)
        (simp add: code_of_rank_def single_get_parent single_get_rank
          get_property_key[OF path_step.prems] get_property_key[OF ndp] pn)
    with r have r': "rank_code_loop st (rank nd) n = Some (Inr (code, last ys))" by simp
    have "ys \<noteq> l @ [n]" using ys(1) by (auto dest: prefix_length_le)
    moreover have "prefix ys (l @ [n])" using ys(1) by simp
    ultimately show ?thesis using r' ys(2) by (intro exI[of _ code] exI[of _ ys]) simp
  qed
qed

lemma distance_of_prefix:
  "prefix ys l \<Longrightarrow> distance_of_paths ys l = int (length l) - int (length ys)"
proof -
  assume p: "prefix ys l"
  then have "longest_common_prefix ys l = ys"
    by (metis longest_common_prefix_max_prefix longest_common_prefix_prefix1 prefix_order.antisym prefix_order.refl)
  then show ?thesis by (simp add: distance_of_paths_def)
qed

lemma prefix_same_length: "prefix ys l \<Longrightarrow> length ys = length l \<Longrightarrow> ys = l"
  by (auto simp: prefix_def)

lemma get_rank_code_single:
  assumes "well_formed st" "caches_ok st" "n \<in> dom (taxonomy st)"
  shows "\<exists>r st'. get_rank_code st [n] = Some (Inr [n \<mapsto> r], st')
           \<and> unchanged st st' \<and> caches_ok st'
           \<and> rank_name r = rank_of st n
           \<and> (rank_depth r = 0 \<longrightarrow>
                 code_of_rank (rank_of st n) = Some (rank_code r)
               \<or> (n = 1 \<and> code_of_rank (rank_of st n) = None \<and> rank_code r = ''R''))"
proof -
  from assms(3) obtain nd where nd: "taxonomy st n = Some nd" by auto
  from wf_path[OF assms(1,3)] obtain l where p: "path (taxonomy st) n l" .
  from rank_code_loop_path[OF p nd] obtain code ys where
    r: "rank_code_loop st (rank nd) n = Some (Inr (code, last ys))"
    and ys: "prefix ys l" "ys \<noteq> []"
    and z: "ys = l \<longrightarrow> code_of_rank (rank nd) = Some code
                      \<or> (n = 1 \<and> code_of_rank (rank nd) = None \<and> code = ''R'')" by blast
  have pc: "path (taxonomy st) (last ys) ys" by (rule path_prefix[OF p ys])
  from get_distance_ok[OF assms(1,2) pc p] obtain st' where
    d: "get_distance st (last ys) n = Some (Inr (int (length l) - int (length ys)), st')"
    and u: "unchanged st st'" and c': "caches_ok st'"
    unfolding distance_of_prefix[OF ys(1)] by blast
  have nd': "taxonomy st' n = Some nd" using unchanged_taxonomy[OF u] nd by simp
  define rt where "rt = \<lparr>rank_name = rank nd, rank_code = code, rank_depth = int (length l) - int (length ys)\<rparr>"
  have rc: "rank_code_of st (rank nd) n = Some (Inr rt, st')"
    unfolding rank_code_of_def
    by (simp add: r d single_get_rank get_property_key[OF nd'] rt_def)
  have gr: "get_rank st [n] = Inr [n \<mapsto> rank nd]"
    by (simp add: get_rank_def get_property_key[OF nd])
  have res: "get_rank_code st [n] = Some (Inr [n \<mapsto> rt], st')"
    unfolding get_rank_code_def gr by (simp add: keys_in_order_def rc)
  have ro: "rank_of st n = rank nd" by (simp add: rank_of_def nd)
  have "rank_depth rt = 0 \<longrightarrow> ys = l"
    using prefix_same_length[OF ys(1)] by (simp add: rt_def)
  with z have zz: "rank_depth rt = 0 \<longrightarrow>
                 code_of_rank (rank_of st n) = Some (rank_code rt)
               \<or> (n = 1 \<and> code_of_rank (rank_of st n) = None \<and> rank_code rt = ''R'')"
    unfolding ro by (simp add: rt_def)
  have rn: "rank_name rt = rank_of st n" unfolding ro by (simp add: rt_def)
  from res u c' rn zz show ?thesis by blast
qed

text \<open>
  Claim C4. On a built tree \<open>get_rank_code([n])[n]\<close> returns, with \<open>rank_name\<close> the textual
  rank of \<open>n\<close>; when the reported \<open>rank_depth\<close> is 0, the reported code is the one the
  table gives to that textual rank, or it is \<open>R\<close> and \<open>n\<close> is the root with a rank that
  the table does not hold.
\<close>

theorem rank_depth_zero_identity:
  assumes "well_formed st" "caches_ok st" "n \<in> dom (taxonomy st)"
  shows "\<exists>r st'. get_rank_code st [n] = Some (Inr [n \<mapsto> r], st')
           \<and> rank_name r = rank_of st n
           \<and> (rank_depth r = 0 \<longrightarrow>
                 code_of_rank (rank_of st n) = Some (rank_code r)
               \<or> (n = 1 \<and> code_of_rank (rank_of st n) = None \<and> rank_code r = ''R''))"
  using get_rank_code_single[OF assms] by blast

theorem rank_depth_zero_identity_witness:
  "construct_tree pinus_names pinus_nodes = Inr pinus_tree
   \<and> well_formed pinus_tree \<and> caches_ok pinus_tree \<and> 100 \<in> dom (taxonomy pinus_tree)
   \<and> (\<exists>r st'. get_rank_code pinus_tree [100] = Some (Inr [100 \<mapsto> r], st')
           \<and> rank_name r = rank_of pinus_tree 100
           \<and> (rank_depth r = 0 \<longrightarrow>
                 code_of_rank (rank_of pinus_tree 100) = Some (rank_code r)
               \<or> (100 = (1::int) \<and> code_of_rank (rank_of pinus_tree 100) = None \<and> rank_code r = ''R'')))"
proof -
  have d: "100 \<in> dom (taxonomy pinus_tree)" by (simp add: pinus_dom)
  from rank_depth_zero_identity[OF pinus_well_formed pinus_caches_ok d]
    pinus_construct pinus_well_formed pinus_caches_ok d
  show ?thesis by (intro conjI)
qed

lemma get_lineage_keeps:
  assumes "well_formed st" "caches_ok st" "get_lineage st ids = Some (r, st')"
  shows "unchanged st st' \<and> caches_ok st'"
proof -
  from assms(2) have l0: "lineages_ok (taxonomy st) (lineages st)" by (simp add: caches_ok_def)
  show ?thesis
  proof (cases "set ids \<subseteq> dom (taxonomy st)")
    case True
    from get_lineage_loop_ok[OF assms(1) l0 True, of Map.empty] obtain memo d' where
      "get_lineage st ids = Some (Inr d', st\<lparr>lineages := memo\<rparr>)" "lineages_ok (taxonomy st) memo"
      unfolding get_lineage_def by blast
    with assms(3) caches_ok_lineages[OF assms(2)] show ?thesis by auto
  next
    case False
    from get_lineage_loop_unknown[OF assms(1) l0 False, of Map.empty] obtain memo k where
      "get_lineage st ids = Some (Inl (KeyError (IntKey k)), st\<lparr>lineages := memo\<rparr>)"
      "lineages_ok (taxonomy st) memo"
      unfolding get_lineage_def by blast
    with assms(3) caches_ok_lineages[OF assms(2)] show ?thesis by auto
  qed
qed

lemma get_lca_keeps:
  assumes "well_formed st" "caches_ok st" "get_lca st a b = Some (r, st')"
  shows "unchanged st st' \<and> caches_ok st'"
proof (cases "a \<in> dom (taxonomy st) \<and> b \<in> dom (taxonomy st)")
  case True
  from True wf_path[OF assms(1), of a] obtain la where "path (taxonomy st) a la" by blast
  moreover from True wf_path[OF assms(1), of b] obtain lb where "path (taxonomy st) b lb" by blast
  ultimately have "path (taxonomy st) a la" "path (taxonomy st) b lb" .
  from get_lca_ok[OF assms(1,2) this] assms(3) show ?thesis by auto
next
  case False
  then have "a \<notin> dom (taxonomy st) \<or> b \<notin> dom (taxonomy st)" by simp
  from get_lca_unknown[OF assms(1,2) this] assms(3) show ?thesis by auto
qed

lemma get_distance_keeps:
  assumes "well_formed st" "caches_ok st" "get_distance st a b = Some (r, st')"
  shows "unchanged st st' \<and> caches_ok st'"
proof (cases "a \<in> dom (taxonomy st) \<and> b \<in> dom (taxonomy st)")
  case True
  from True wf_path[OF assms(1), of a] obtain la where "path (taxonomy st) a la" by blast
  moreover from True wf_path[OF assms(1), of b] obtain lb where "path (taxonomy st) b lb" by blast
  ultimately have "path (taxonomy st) a la" "path (taxonomy st) b lb" .
  from get_distance_ok[OF assms(1,2) this] assms(3) show ?thesis by auto
next
  case False
  then have "a \<notin> dom (taxonomy st) \<or> b \<notin> dom (taxonomy st)" by simp
  from get_distance_unknown[OF assms(1,2) this] assms(3) show ?thesis by auto
qed

lemma get_rank_code_keeps:
  assumes "well_formed st" "caches_ok st" "get_rank_code st [n] = Some (r, st')"
  shows "unchanged st st' \<and> caches_ok st'"
proof (cases "n \<in> dom (taxonomy st)")
  case True
  from get_rank_code_single[OF assms(1,2) True] assms(3) show ?thesis by auto
next
  case False
  then have "get_rank st [n] = Inl (KeyError (IntKey n))"
    using well_formed_nonempty[OF assms(1)] by (auto simp: get_rank_def get_property_def)
  with assms(3,2) show ?thesis by (auto simp: get_rank_code_def)
qed


section \<open>From the node source to the built tree\<close>

text \<open>
  \<open>construct_tree\<close> establishes what the statements about queries assume: the
  memoisation dictionaries are empty, and a source that describes a tree gives a
  well-formed node mapping. The queries keep both properties, whatever their arguments
  and whether they return or raise.
\<close>

lemma last_parent_Nil: "last_parent [] = Map.empty"
  by (simp add: last_parent_def)

lemma last_parent_Cons:
  "last_parent ((i, p, r) # ls) n = (case last_parent ls n of Some q \<Rightarrow> Some q | None \<Rightarrow> if n = i then Some p else None)"
  by (simp add: last_parent_def map_add_def split: option.splits)

lemma read_nodes_parent:
  "read_nodes t2n st ls = Inr st' \<Longrightarrow>
     parent_of st' n = (case last_parent ls n of Some q \<Rightarrow> Some q | None \<Rightarrow> parent_of st n)"
proof (induction ls arbitrary: st)
  case Nil
  then show ?case by (simp add: last_parent_Nil)
next
  case (Cons l ls)
  obtain i p r where l: "l = (i, p, r)" by (cases l)
  from Cons.prems obtain st1 where a: "read_node_line t2n st (i, p, r) = Inr st1"
    and b: "read_nodes t2n st1 ls = Inr st'"
    unfolding l by (cases "read_node_line t2n st (i, p, r)") simp_all
  show ?case unfolding l Cons.IH[OF b] read_node_line_Inr(3)[OF a] last_parent_Cons
    by (simp split: option.splits)
qed

lemma read_node_line_caches:
  assumes "read_node_line t2n st (i, p, r) = Inr st'"
  shows "lineages st' = lineages st \<and> distances st' = distances st \<and> lca_mappings st' = lca_mappings st"
  using assms
  by (auto simp: read_node_line.simps Let_def split: option.splits prod.splits)

lemma read_nodes_caches:
  "read_nodes t2n st ls = Inr st' \<Longrightarrow>
     lineages st' = lineages st \<and> distances st' = distances st \<and> lca_mappings st' = lca_mappings st"
proof (induction ls arbitrary: st)
  case Nil
  then show ?case by simp
next
  case (Cons l ls)
  obtain i p r where l: "l = (i, p, r)" by (cases l)
  from Cons.prems obtain st1 where a: "read_node_line t2n st (i, p, r) = Inr st1"
    and b: "read_nodes t2n st1 ls = Inr st'"
    unfolding l by (cases "read_node_line t2n st (i, p, r)") simp_all
  from Cons.IH[OF b] read_node_line_caches[OF a] show ?case by simp
qed

lemma construct_tree_caches_ok:
  assumes "construct_tree names nodes = Inr st"
  shows "caches_ok st"
proof -
  from assms obtain t2n st0 root0 where
    b: "read_nodes t2n empty_tree nodes = Inr st0"
    and st: "st = st0\<lparr>taxonomy := (taxonomy st0)(1 \<mapsto> root0\<lparr>parent := None, children := remove1 1 (children root0)\<rparr>)\<rparr>"
    by (auto simp: construct_tree_def split: sum.splits option.splits if_splits)
  from read_nodes_caches[OF b] show ?thesis
    by (intro empty_caches_ok) (simp_all add: st empty_tree_def)
qed

lemma construct_tree_well_formed:
  assumes "construct_tree names nodes = Inr st" "tree_source nodes"
  shows "well_formed st"
proof -
  from assms(1) obtain t2n st0 root0 where
    b: "read_nodes t2n empty_tree nodes = Inr st0"
    and r0: "taxonomy st0 1 = Some root0"
    and st: "st = st0\<lparr>taxonomy := (taxonomy st0)(1 \<mapsto> root0\<lparr>parent := None, children := remove1 1 (children root0)\<rparr>)\<rparr>"
    by (auto simp: construct_tree_def split: sum.splits option.splits if_splits)
  have d: "dom (taxonomy st) = record_ids nodes \<union> parent_ids nodes"
    using read_nodes_Inr(1)[OF b] r0 unfolding st by (auto simp: empty_tree_def)
  have root: "\<exists>nd. taxonomy st 1 = Some nd \<and> parent nd = None" unfolding st by simp
  have par: "\<exists>nd. taxonomy st n = Some nd \<and> parent nd = Some p"
    if "n \<noteq> 1" "last_parent nodes n = Some p" for n p
  proof -
    from read_nodes_parent[OF b, of n] that(2) have "parent_of st0 n = Some p" by simp
    then obtain nd where "taxonomy st0 n = Some nd" "parent nd = Some p"
      by (auto simp: parent_of_def split: option.splits)
    with that(1) show ?thesis unfolding st by simp
  qed
  have p: "source_path nodes n l \<Longrightarrow> path (taxonomy st) n l" for n l
  proof (induction rule: source_path.induct)
    case source_root
    from root show ?case by (auto intro: path_root)
  next
    case (source_step n p l)
    from par[OF source_step.hyps(1,2)] obtain nd where
      "taxonomy st n = Some nd" "parent nd = Some p" by blast
    with source_step.IH show ?case by (auto intro: path_step)
  qed
  have "1 \<in> dom (taxonomy st)" using root by auto
  moreover have "\<forall>n\<in>dom (taxonomy st). 0 < n \<and> (\<exists>l. path (taxonomy st) n l)"
    using assms(2) p unfolding d tree_source_def by blast
  ultimately show ?thesis unfolding well_formed_def by simp
qed

lemma pinus_tree_source: "tree_source pinus_nodes"
proof -
  have lp: "last_parent pinus_nodes 10 = Some 1" "last_parent pinus_nodes 100 = Some 10"
    "last_parent pinus_nodes 101 = Some 10"
    by (simp_all add: last_parent_def pinus_nodes_def)
  have 1: "source_path pinus_nodes 1 [1]" by (rule source_root)
  have "source_path pinus_nodes 10 ([1] @ [10])" by (rule source_step[OF _ lp(1) 1]) simp
  then have 10: "source_path pinus_nodes 10 [1, 10]" by simp
  have 100: "source_path pinus_nodes 100 ([1, 10] @ [100])" by (rule source_step[OF _ lp(2) 10]) simp
  have 101: "source_path pinus_nodes 101 ([1, 10] @ [101])" by (rule source_step[OF _ lp(3) 10]) simp
  have ids: "record_ids pinus_nodes \<union> parent_ids pinus_nodes = {1, 10, 100, 101}"
    by (auto simp: record_ids_def parent_ids_def pinus_nodes_def)
  show ?thesis unfolding tree_source_def ids using 1 10 100 101 by auto
qed

section \<open>The subtree queries on two small trees\<close>

lemma domains_construct: "construct_tree domains_names domains_nodes = Inr domains_tree"
  apply (simp add: construct_tree_def domains_names_def domains_nodes_def read_name_line.simps
      wanted_name_types_def read_node_line.simps empty_tree_def add_byrank_def Let_def domains_tree_def)
  apply (auto simp: fun_eq_iff)
  done

lemma domains_rank_code_2:
  "map_option fst (get_rank_code domains_tree [2]) =
     Some (Inr [2 \<mapsto> \<lparr>rank_name = Some ''superkingdom'', rank_code = ''D'', rank_depth = 0\<rparr>])"
  by (simp add: get_rank_code_def get_rank_def get_property_def domains_tree_def keys_in_order_def
      subscript_def rank_code_of_def rank_code_loop.simps translate_rank2code_def
      translate_rank2code_items_def get_distance_def cached_def ensure_key_def get_lca_def
      get_lineage_def single_def get_node_def lineage_loop.simps item_def store_def
      one_way_distance_def Let_def)

lemmas eval_query =
  get_rank_code_def get_rank_def get_parent_def get_children_def get_property_def keys_in_order_def
  subscript_def rank_code_of_def rank_code_loop.simps translate_rank2code_def
  translate_rank2code_items_def get_distance_def cached_def ensure_key_def get_lca_def
  get_lineage_def single_def get_node_def lineage_loop.simps item_def store_def
  one_way_distance_def Let_def

lemma domains_siblings_2:
  "map_option fst (get_siblings 3 domains_tree 2) = Some (Inr {2, 2157})"
  by (simp add: get_siblings_def sibling_parent.simps rank_codes_def eval_nat_numeral
      domains_tree_def eval_query insert_commute)

lemma domains_siblings_root:
  "map_option fst (get_siblings 3 domains_tree 1) = Some (Inl (KeyError NoneKey))"
  by (simp add: get_siblings_def sibling_parent.simps rank_codes_def eval_nat_numeral
      domains_tree_def eval_query)

lemma inverted_construct: "construct_tree inverted_names inverted_nodes = Inr inverted_tree"
  apply (simp add: construct_tree_def inverted_names_def inverted_nodes_def read_name_line.simps
      wanted_name_types_def read_node_line.simps empty_tree_def add_byrank_def Let_def inverted_tree_def)
  apply (auto simp: fun_eq_iff)
  done

lemma inverted_rank_code_20:
  "map_option fst (get_rank_code inverted_tree [20]) =
     Some (Inr [20 \<mapsto> \<lparr>rank_name = Some ''genus'', rank_code = ''G'', rank_depth = 0\<rparr>])"
  by (simp add: inverted_tree_def eval_query)

lemma inverted_clade_genus:
  "map_option fst (get_clade_rank_taxids 3 inverted_tree [1] (Some ''genus'')) =
     Some (Inr [1 \<mapsto> [''G'' \<mapsto> {}]])"
  by (simp add: get_clade_rank_taxids_def wanted_of_def canonical_ranks_def canonical_rank_weights_def
      record_taxid_def eval_nat_numeral inverted_tree_def eval_query)

lemma inverted_children:
  "children_of inverted_tree 1 = [10]" "children_of inverted_tree 10 = [20]"
  by (simp_all add: children_of_def inverted_tree_def)

lemma superkingdom_code_excluded: "''D'' \<notin> set rank_codes"
  by (simp add: rank_codes_def)

text \<open>
  Claim C2 fails on the code. In the tree built from \<open>inverted_nodes\<close> the genus 20 is a
  member of the clade of the root (a child of the child 10 of the root) and
  \<open>get_rank_code\<close> gives it the code \<open>G\<close> at depth 0, but
  \<open>get_clade_rank_taxids([1], 'genus')\<close> returns an empty set of genera: at the species
  10 no wanted rank is deeper, and the search does not descend.
\<close>

theorem clade_rank_pruning_omits_genus:
  "construct_tree inverted_names inverted_nodes = Inr inverted_tree
   \<and> children_of inverted_tree 1 = [10] \<and> children_of inverted_tree 10 = [20]
   \<and> map_option fst (get_rank_code inverted_tree [20]) =
       Some (Inr [20 \<mapsto> \<lparr>rank_name = Some ''genus'', rank_code = ''G'', rank_depth = 0\<rparr>])
   \<and> map_option fst (get_clade_rank_taxids 3 inverted_tree [1] (Some ''genus'')) =
       Some (Inr [1 \<mapsto> [''G'' \<mapsto> {}]])"
  by (intro conjI inverted_construct inverted_children inverted_rank_code_20 inverted_clade_genus)

text \<open>
  Claim C3 fails on the code. In the tree built from \<open>domains_nodes\<close> the identifier 2 is
  a superkingdom: its code \<open>D\<close> at depth 0 is none of \<open>S\<close>, \<open>G\<close>, \<open>F\<close>, \<open>O\<close>, \<open>C\<close>, \<open>P\<close>,
  yet \<open>get_siblings(2)\<close> raises nothing and returns both superkingdoms, since the source
  tests the depth only.
\<close>

theorem siblings_accepts_superkingdom:
  "construct_tree domains_names domains_nodes = Inr domains_tree
   \<and> map_option fst (get_rank_code domains_tree [2]) =
       Some (Inr [2 \<mapsto> \<lparr>rank_name = Some ''superkingdom'', rank_code = ''D'', rank_depth = 0\<rparr>])
   \<and> ''D'' \<notin> set rank_codes
   \<and> map_option fst (get_siblings 3 domains_tree 2) = Some (Inr {2, 2157})"
  by (intro conjI domains_construct domains_rank_code_2 superkingdom_code_excluded domains_siblings_2)

end
